theory Spec2Isabelle
  imports Main "HOL-Library.Word"
begin

unbundle bit_operations_syntax

section \<open>The packet stream ring buffer of \<^verbatim>\<open>src/packetstream.c\<close>\<close>

text \<open>
  A shallow embedding of the ring buffer: the state record, the packet handle, the
  byte arena with the packet headers stored inline, and the operations on them.

  Conventions.
  \<^item> The data model is LP64, the one the specification's scenarios use (a header of
    16 bytes): \<^verbatim>\<open>size_t\<close> and \<^verbatim>\<open>long\<close> are 64-bit words, \<^verbatim>\<open>int\<close> and
    \<^verbatim>\<open>ps_flags_t\<close> are 32-bit words. Arithmetic on them wraps as the machine's does;
    \<^verbatim>\<open>long\<close> is read through \<open>sint\<close>.
  \<^item> A call runs alone (no other thread runs in between). A call that would sleep
    (on a semaphore whose count is 0, on a locked mutex) has the outcome \<open>Blocks\<close>;
    a call that reaches \<^verbatim>\<open>abort()\<close> has the outcome \<open>Aborts\<close>.
  \<^item> Undefined behaviour of C is not given a meaning: a header read through a NULL
    \<^verbatim>\<open>packet->header\<close> is \<open>the None\<close>, a remainder by a buffer size of 0 is HOL's,
    and the arena is a total function of the byte offset, so that an access past
    \<^verbatim>\<open>state->size\<close> reads and writes offsets that are not part of the arena. Theorems
    that depend on such a value carry the hypothesis that excludes it.
  \<^item> The wait-time statistics and \<^verbatim>\<open>create_time\<close> read the clock and are left out.
\<close>

subsection \<open>Machine types\<close>

type_synonym byte = "8 word"
type_synonym size_t = "64 word"
type_synonym c_long = "64 word"
type_synonym c_int = "32 word"
type_synonym ps_flags_t = "32 word"

text \<open>\<^verbatim>\<open>sizeof(struct ps_packet_header_s)\<close>: a 4-byte \<^verbatim>\<open>flags\<close>, 4 bytes of padding and
  an 8-byte \<^verbatim>\<open>size\<close>.\<close>

definition hdr_size :: size_t where
  "hdr_size = 16"

definition PS_PACKET_HEADER_WRITTEN :: ps_flags_t where
  "PS_PACKET_HEADER_WRITTEN = 1"

definition PS_PACKET_HEADER_READ :: ps_flags_t where
  "PS_PACKET_HEADER_READ = 2"

definition MAX_SEM_WAIT_TRIES :: nat where
  "MAX_SEM_WAIT_TRIES = 6"

text \<open>The values of \<^verbatim>\<open><errno.h>\<close> on Linux, for the two functions that return a
  count or a cursor in the same \<^verbatim>\<open>int\<close> as an error code.\<close>

datatype errno = OK | EINVAL | EBUSY | ENOBUFS | EINTR | EAGAIN | ENOMEM | ENOTSUP

fun errno_code :: "errno \<Rightarrow> c_int" where
  "errno_code OK = 0"
| "errno_code EINTR = 4"
| "errno_code EAGAIN = 11"
| "errno_code ENOMEM = 12"
| "errno_code EBUSY = 16"
| "errno_code EINVAL = 22"
| "errno_code ENOTSUP = 95"
| "errno_code ENOBUFS = 105"

datatype 'a outcome = Returns 'a | Blocks | Aborts

subsection \<open>Flags\<close>

text \<open>Modelled from the spec: the bit values of the buffer and packet flags are macros of
  \<^verbatim>\<open>packetstream.h\<close>, which is not among the sources. A flags word is the set of the
  named bits that are set in it: \<^verbatim>\<open>flags & F\<close> is \<open>F \<in> flags\<close>, \<^verbatim>\<open>flags |= F\<close> is
  \<open>insert F flags\<close>, \<^verbatim>\<open>flags &= ~F\<close> is \<open>flags - {F}\<close>.\<close>

datatype buffer_flag = PS_BUFFER_PSHARED | PS_BUFFER_STATS | PS_BUFFER_READY | PS_BUFFER_CANCELLED

datatype packet_flag = PS_PACKET_READ | PS_PACKET_WRITE | PS_PACKET_TRY | PS_PACKET_SIZE_SET

subsection \<open>Semaphores and mutexes\<close>

text \<open>A semaphore is its count. \<^verbatim>\<open>sem_post\<close> fails (\<^verbatim>\<open>EOVERFLOW\<close>) at the maximum;
  \<^verbatim>\<open>sem_trywait\<close> fails on a count of 0.\<close>

definition SEM_VALUE_MAX :: nat where
  "SEM_VALUE_MAX = 2147483647"

definition sem_post :: "nat \<Rightarrow> nat option" where
  "sem_post c = (if SEM_VALUE_MAX \<le> c then None else Some (Suc c))"

definition sem_trywait :: "nat \<Rightarrow> nat option" where
  "sem_trywait c = (if c = 0 then None else Some (c - 1))"

text \<open>\<^verbatim>\<open>sem_wait\<close> under the retry label of the source: it takes a token when there is
  one; on a count of 0 it sleeps, and returns an error only when a signal interrupts
  the sleep. The first argument is the number of tries left, the second the number of
  signals the environment will still deliver. The result is the success flag, the
  signals left and the count.\<close>

fun sem_wait_retry :: "nat \<Rightarrow> nat \<Rightarrow> nat \<Rightarrow> (bool \<times> nat \<times> nat) outcome" where
  "sem_wait_retry 0 sigs c = Returns (False, sigs, c)"
| "sem_wait_retry (Suc k) sigs c =
     (if 0 < c then Returns (True, sigs, c - 1)
      else if 0 < sigs then sem_wait_retry k (sigs - 1) c
      else Blocks)"

subsection \<open>The arena and the headers stored in it\<close>

type_synonym arena = "nat \<Rightarrow> byte"

fun load_le :: "arena \<Rightarrow> nat \<Rightarrow> nat \<Rightarrow> nat" where
  "load_le m a 0 = 0"
| "load_le m a (Suc k) = unat (m a) + 256 * load_le m (Suc a) k"

fun store_le :: "arena \<Rightarrow> nat \<Rightarrow> nat \<Rightarrow> nat \<Rightarrow> arena" where
  "store_le m a 0 v = m"
| "store_le m a (Suc k) v = store_le (m(a := of_nat v)) (Suc a) k (v div 256)"

text \<open>\<^verbatim>\<open>memcpy(&buffer->buffer[a], src, k)\<close>, \<^verbatim>\<open>memcpy(dest, &buffer->buffer[a], k)\<close>
  and \<^verbatim>\<open>memset(&buffer->buffer[a], 0, k)\<close>.\<close>

definition memcpy_to :: "arena \<Rightarrow> nat \<Rightarrow> byte list \<Rightarrow> nat \<Rightarrow> arena" where
  "memcpy_to m a src k = (\<lambda>x. if a \<le> x \<and> x < a + k then src ! (x - a) else m x)"

definition memcpy_from :: "arena \<Rightarrow> nat \<Rightarrow> nat \<Rightarrow> byte list" where
  "memcpy_from m a k = map (\<lambda>i. m (a + i)) [0..<k]"

definition memset0 :: "arena \<Rightarrow> nat \<Rightarrow> nat \<Rightarrow> arena" where
  "memset0 m a k = (\<lambda>x. if a \<le> x \<and> x < a + k then 0 else m x)"

text \<open>The fields of the \<^verbatim>\<open>struct ps_packet_header_s\<close> at byte offset \<open>h\<close>.\<close>

definition header_flags :: "arena \<Rightarrow> size_t \<Rightarrow> ps_flags_t" where
  "header_flags m h = of_nat (load_le m (unat h) 4)"

definition header_size :: "arena \<Rightarrow> size_t \<Rightarrow> size_t" where
  "header_size m h = of_nat (load_le m (unat h + 8) 8)"

definition set_header_flags :: "arena \<Rightarrow> size_t \<Rightarrow> ps_flags_t \<Rightarrow> arena" where
  "set_header_flags m h f = store_le m (unat h) 4 (unat f)"

definition set_header_size :: "arena \<Rightarrow> size_t \<Rightarrow> size_t \<Rightarrow> arena" where
  "set_header_size m h n = store_le m (unat h + 8) 8 (unat n)"

subsection \<open>Position arithmetic\<close>

text \<open>\<^verbatim>\<open>static inline int move_pos(size_t pos, size_t buf_size, size_t packet_size)\<close>:
  the position is computed in \<^verbatim>\<open>size_t\<close> and returned as an \<^verbatim>\<open>int\<close>. Every caller
  assigns the result to a \<^verbatim>\<open>size_t\<close>, which sign-extends it (\<open>int_to_size_t\<close>).\<close>

definition move_pos :: "size_t \<Rightarrow> size_t \<Rightarrow> size_t \<Rightarrow> c_int" where
  "move_pos p buf_size packet_size =
     (let p1 = (hdr_size + p + packet_size) mod buf_size;
          p2 = (if p1 + hdr_size > buf_size then 0 else p1)
      in ucast p2)"

definition int_to_size_t :: "c_int \<Rightarrow> size_t" where
  "int_to_size_t r = scast r"

subsection \<open>State, buffer and packet handle\<close>

record ps_state_s =
  s_flags :: "buffer_flag set"
  s_size :: size_t
  read_pos :: size_t
  write_pos :: size_t
  read_next :: size_t
  write_next :: size_t
  read_first :: size_t
  free_bytes :: c_long
  read_mutex :: bool
  write_mutex :: bool
  read_close_mutex :: bool
  write_close_mutex :: bool
  read_packets :: nat
  written_packets :: nat

text \<open>Modelled from the spec: \<^verbatim>\<open>ps_stats_t\<close>, \<^verbatim>\<open>ps_buffer_t\<close>, \<^verbatim>\<open>ps_packet_t\<close> and
  \<^verbatim>\<open>ps_bufferattr_t\<close> are declared in \<^verbatim>\<open>packetstream.h\<close>, which is not among the
  sources; the records hold the fields the source uses. A mutex is \<open>True\<close> when
  locked; \<open>stats\<close> is \<open>None\<close> for a NULL pointer; a \<open>shmid\<close> of \<open>None\<close> is the value of
  the macro \<^verbatim>\<open>PS_SHM_CREATE\<close>. \<open>pending_signals\<close> is not a
  field of the C structure: it is the number of signals the environment will still
  deliver to a sleeping \<^verbatim>\<open>sem_wait\<close>.\<close>

record ps_stats_t =
  stats_written_packets :: "64 word"
  stats_written_bytes :: "64 word"
  stats_read_packets :: "64 word"
  stats_read_bytes :: "64 word"

record ps_buffer_t =
  state :: ps_state_s
  buffer :: arena
  stats :: "ps_stats_t option"
  shmid :: "int option"
  pending_signals :: nat

record ps_fake_dma_s =
  mem :: "byte list"
  mem_size :: size_t
  dma_size :: size_t
  dma_pos :: size_t
  dma_free :: bool

record ps_packet_t =
  p_flags :: "packet_flag set"
  buffer_pos :: size_t
  header :: "size_t option"
  pos :: size_t
  reserved :: size_t
  fake_dma :: "ps_fake_dma_s list"

subsection \<open>Handle checks\<close>

definition ps_buffer_check :: "ps_buffer_t \<Rightarrow> errno" where
  "ps_buffer_check b =
     (if PS_BUFFER_READY \<notin> s_flags (state b) then EINVAL
      else if PS_BUFFER_CANCELLED \<in> s_flags (state b) then EINTR
      else OK)"

definition ps_packet_check :: "ps_buffer_t \<Rightarrow> ps_packet_t \<Rightarrow> errno" where
  "ps_packet_check b pk =
     (if \<not> (PS_PACKET_READ \<in> p_flags pk \<or> PS_PACKET_WRITE \<in> p_flags pk) then EINVAL
      else ps_buffer_check b)"

subsection \<open>Reserving bytes: \<^verbatim>\<open>ps_packet_reserve\<close>\<close>

text \<open>The body of the inner \<^verbatim>\<open>do ... while\<close> loop up to the cancellation check: the
  packet at \<^verbatim>\<open>read_first\<close> is given back to \<^verbatim>\<open>free_bytes\<close> and \<^verbatim>\<open>read_first\<close>
  moves past it; the index computation is written out in the source, not a call of
  \<^verbatim>\<open>move_pos\<close>.\<close>

definition reclaim_read_first :: "ps_buffer_t \<Rightarrow> ps_buffer_t" where
  "reclaim_read_first b =
     (let s = state b;
          n = header_size (buffer b) (read_first s);
          fb = free_bytes s + (hdr_size + n);
          rf = (read_first s + hdr_size + n) mod s_size s
      in if rf + hdr_size > s_size s
         then b\<lparr>state := s\<lparr>free_bytes := fb + (s_size s - rf), read_first := 0\<rparr>\<rparr>
         else b\<lparr>state := s\<lparr>free_bytes := fb, read_first := rf\<rparr>\<rparr>)"

text \<open>The inner loop: \<^verbatim>\<open>do { ...; __PS_CHECK_CANCEL_WRITE } while (!sem_trywait(&read_packets))\<close>.\<close>

function reserve_reclaim :: "ps_buffer_t \<Rightarrow> errno \<times> ps_buffer_t" where
  "reserve_reclaim b =
     (let b1 = reclaim_read_first b in
      if PS_BUFFER_CANCELLED \<in> s_flags (state b1)
      then (EINTR, b1\<lparr>state := (state b1)\<lparr>write_mutex := False\<rparr>\<rparr>)
      else (case sem_trywait (read_packets (state b1)) of
              None \<Rightarrow> (OK, b1)
            | Some c \<Rightarrow> reserve_reclaim (b1\<lparr>state := (state b1)\<lparr>read_packets := c\<rparr>\<rparr>)))"
  by pat_completeness auto
termination
  by (relation "measure (\<lambda>b. read_packets (state b))")
     (auto simp: sem_trywait_def reclaim_read_first_def Let_def split: if_splits)

declare reserve_reclaim.simps [simp del]

text \<open>The wait at the head of the outer loop: \<^verbatim>\<open>sem_trywait\<close> under
  \<^verbatim>\<open>PS_PACKET_TRY\<close>, else \<^verbatim>\<open>sem_wait\<close> with its retries. The result is \<open>OK\<close> when a
  token was taken, else the error the caller returns after restoring \<^verbatim>\<open>free_bytes\<close>.\<close>

definition reserve_wait :: "ps_buffer_t \<Rightarrow> ps_packet_t \<Rightarrow> (errno \<times> ps_buffer_t) outcome" where
  "reserve_wait b pk =
     (if PS_PACKET_TRY \<in> p_flags pk then
        (case sem_trywait (read_packets (state b)) of
           None \<Rightarrow> Returns (EBUSY, b)
         | Some c \<Rightarrow> Returns (OK, b\<lparr>state := (state b)\<lparr>read_packets := c\<rparr>\<rparr>))
      else
        (case sem_wait_retry MAX_SEM_WAIT_TRIES (pending_signals b) (read_packets (state b)) of
           Blocks \<Rightarrow> Blocks
         | Aborts \<Rightarrow> Aborts
         | Returns (ok, sigs, c) \<Rightarrow>
             Returns (if ok then OK else EINVAL,
                      b\<lparr>state := (state b)\<lparr>read_packets := c\<rparr>, pending_signals := sigs\<rparr>)))"

lemma sem_wait_retry_count:
  "sem_wait_retry k sigs c = Returns (ok, sigs', c') \<Longrightarrow> (if ok then Suc c' = c else c' = c)"
  by (induction k sigs c rule: sem_wait_retry.induct) (auto split: if_splits)

lemma reserve_wait_count:
  "reserve_wait b pk = Returns (OK, b1) \<Longrightarrow> read_packets (state b1) < read_packets (state b)"
  by (auto simp: reserve_wait_def sem_trywait_def split: if_splits option.splits outcome.splits
           dest!: sem_wait_retry_count)

lemma reserve_reclaim_count:
  "reserve_reclaim b = (e, b2) \<Longrightarrow> read_packets (state b2) \<le> read_packets (state b)"
proof (induction b arbitrary: e b2 rule: reserve_reclaim.induct)
  case (1 b)
  let ?b1 = "reclaim_read_first b"
  have same: "read_packets (state ?b1) = read_packets (state b)"
    by (simp add: reclaim_read_first_def Let_def)
  show ?case
  proof (cases "PS_BUFFER_CANCELLED \<in> s_flags (state ?b1)")
    case True
    with "1.prems" same show ?thesis
      by (subst (asm) reserve_reclaim.simps) (auto simp: Let_def)
  next
    case False
    show ?thesis
    proof (cases "sem_trywait (read_packets (state ?b1))")
      case None
      with False "1.prems" same show ?thesis
        by (subst (asm) reserve_reclaim.simps) (auto simp: Let_def)
    next
      case (Some c)
      with False "1.prems"
      have "reserve_reclaim (?b1\<lparr>state := (state ?b1)\<lparr>read_packets := c\<rparr>\<rparr>) = (e, b2)"
        by (subst (asm) reserve_reclaim.simps) (simp add: Let_def)
      from "1.IH"[OF refl False Some this] have "read_packets (state b2) \<le> c"
        by simp
      moreover from Some have "c \<le> read_packets (state ?b1)"
        by (auto simp: sem_trywait_def split: if_splits)
      ultimately show ?thesis using same by simp
    qed
  qed
qed

text \<open>The outer loop \<^verbatim>\<open>while (state->free_bytes < 0)\<close> and the function itself. \<open>len\<close> is
  the absolute size asked for, not an increment.\<close>

function reserve_loop ::
  "ps_buffer_t \<Rightarrow> ps_packet_t \<Rightarrow> size_t \<Rightarrow> (errno \<times> ps_buffer_t \<times> ps_packet_t) outcome" where
  "reserve_loop b pk len =
     (if \<not> sint (free_bytes (state b)) < 0 then Returns (OK, b, pk\<lparr>reserved := len\<rparr>)
      else
        (case reserve_wait b pk of
           Blocks \<Rightarrow> Blocks
         | Aborts \<Rightarrow> Aborts
         | Returns (e, b1) \<Rightarrow>
             if e \<noteq> OK
             then Returns (e, b1\<lparr>state := (state b1)
                     \<lparr>free_bytes := free_bytes (state b1) + (len - reserved pk)\<rparr>\<rparr>, pk)
             else
               (case reserve_reclaim b1 of
                  (OK, b2) \<Rightarrow> reserve_loop b2 pk len
                | (e2, b2) \<Rightarrow> Returns (e2, b2, pk))))"
  by pat_completeness auto
termination
proof (relation "measure (\<lambda>(b, pk, len). read_packets (state b))", goal_cases)
  case 1
  show ?case by simp
next
  case (2 b pk len x y b1 z b2)
  then show ?case
    using reserve_wait_count[of b pk b1] reserve_reclaim_count[of b1 OK b2] by auto
qed

declare reserve_loop.simps [simp del]

definition ps_packet_reserve ::
  "ps_buffer_t \<Rightarrow> ps_packet_t \<Rightarrow> size_t \<Rightarrow> (errno \<times> ps_buffer_t \<times> ps_packet_t) outcome" where
  "ps_packet_reserve b pk len =
     (if len \<le> reserved pk then Returns (OK, b, pk)
      else reserve_loop
             (b\<lparr>state := (state b)\<lparr>free_bytes := free_bytes (state b) - (len - reserved pk)\<rparr>\<rparr>)
             pk len)"

subsection \<open>Sequencing calls\<close>

definition bind_outcome :: "'a outcome \<Rightarrow> ('a \<Rightarrow> 'b outcome) \<Rightarrow> 'b outcome" where
  "bind_outcome x f = (case x of Returns v \<Rightarrow> f v | Blocks \<Rightarrow> Blocks | Aborts \<Rightarrow> Aborts)"

lemma bind_outcome_simps [simp]:
  "bind_outcome (Returns v) f = f v"
  "bind_outcome Blocks f = Blocks"
  "bind_outcome Aborts f = Aborts"
  by (simp_all add: bind_outcome_def)

lemma bind_outcome_Returns:
  "bind_outcome x f = Returns r \<longleftrightarrow> (\<exists>v. x = Returns v \<and> f v = Returns r)"
  by (cases x) simp_all

subsection \<open>Fake DMA staging entries\<close>

text \<open>The linked list \<^verbatim>\<open>packet->fake_dma\<close> is the list of its entries in traversal
  order. \<^verbatim>\<open>ps_packet_dma\<close>, which creates the entries, hands out raw pointers and is
  not modelled.\<close>

definition ps_packet_fakedma_free :: "ps_fake_dma_s \<Rightarrow> ps_fake_dma_s" where
  "ps_packet_fakedma_free d = d\<lparr>dma_free := True\<rparr>"

definition fakedma_cut_entry :: "size_t \<Rightarrow> ps_fake_dma_s \<Rightarrow> ps_fake_dma_s" where
  "fakedma_cut_entry n d =
     (if dma_pos d > n then ps_packet_fakedma_free d
      else if dma_pos d + dma_size d > n then d\<lparr>dma_size := n - dma_pos d\<rparr>
      else d)"

definition ps_packet_fakedma_cut :: "ps_packet_t \<Rightarrow> size_t \<Rightarrow> ps_packet_t" where
  "ps_packet_fakedma_cut pk n = pk\<lparr>fake_dma := map (fakedma_cut_entry n) (fake_dma pk)\<rparr>"

definition ps_packet_fakedma_freeall :: "ps_packet_t \<Rightarrow> ps_packet_t" where
  "ps_packet_fakedma_freeall pk =
     pk\<lparr>fake_dma := map (\<lambda>d. if \<not> dma_free d then ps_packet_fakedma_free d else d) (fake_dma pk)\<rparr>"

subsection \<open>Setting the size: \<^verbatim>\<open>ps_packet_setsize\<close>\<close>

text \<open>The position of the next header, computed in \<^verbatim>\<open>ps_packet_setsize\<close> without a
  call of \<^verbatim>\<open>move_pos\<close>: the result is the new \<^verbatim>\<open>write_next\<close> and \<^verbatim>\<open>res\<close>, the bytes
  left unused at the end of the arena.\<close>

definition next_header_slot :: "size_t \<Rightarrow> size_t \<Rightarrow> size_t \<Rightarrow> size_t \<times> size_t" where
  "next_header_slot wn n sz =
     (let wn0 = (hdr_size + wn + n) mod sz
      in if wn0 + hdr_size > sz then (0, sz - wn0) else (wn0, 0))"

text \<open>The function in three steps: the checks and the first reservation
  (\<open>ps_packet_setsize\<close>), the second reservation, which includes the next header
  (\<open>setsize_reserved\<close>), and the writes that freeze the size (\<open>setsize_finish\<close>).\<close>

definition setsize_finish ::
  "size_t \<Rightarrow> size_t \<Rightarrow> size_t \<Rightarrow> ps_buffer_t \<Rightarrow> ps_packet_t \<Rightarrow> ps_buffer_t \<times> ps_packet_t" where
  "setsize_finish n wn res b2 pk3 =
     (let s2 = state b2;
          fb = free_bytes s2 + (reserved pk3 - (n + hdr_size + res));
          m1 = set_header_size (buffer b2) (the (header pk3)) n;
          m2 = memset0 m1 (unat wn) (unat hdr_size)
      in (b2\<lparr>state := s2\<lparr>free_bytes := fb, write_next := wn, write_mutex := False\<rparr>,
             buffer := m2\<rparr>,
          ps_packet_fakedma_cut (pk3\<lparr>p_flags := insert PS_PACKET_SIZE_SET (p_flags pk3)\<rparr>) n))"

definition setsize_reserved ::
  "size_t \<Rightarrow> ps_buffer_t \<Rightarrow> ps_packet_t \<Rightarrow> (errno \<times> ps_buffer_t \<times> ps_packet_t) outcome" where
  "setsize_reserved n b1 pk1 =
     (let (wn, res) = next_header_slot (write_next (state b1)) n (s_size (state b1));
          pk2 = pk1\<lparr>p_flags := p_flags pk1 - {PS_PACKET_TRY}\<rparr>
      in bind_outcome (ps_packet_reserve b1 pk2 (hdr_size + n + res)) (\<lambda>(ret2, b2, pk3).
           if ret2 \<noteq> OK then Returns (ret2, b2, pk3)
           else Returns (OK, setsize_finish n wn res b2 pk3)))"

definition ps_packet_setsize ::
  "ps_buffer_t \<Rightarrow> ps_packet_t \<Rightarrow> size_t \<Rightarrow> (errno \<times> ps_buffer_t \<times> ps_packet_t) outcome" where
  "ps_packet_setsize b pk n =
     (if ps_packet_check b pk \<noteq> OK then Returns (ps_packet_check b pk, b, pk)
      else if PS_PACKET_WRITE \<notin> p_flags pk \<or> PS_PACKET_SIZE_SET \<in> p_flags pk
        then Returns (EINVAL, b, pk)
      else if n + hdr_size * 2 > s_size (state b) then Returns (ENOBUFS, b, pk)
      else bind_outcome (ps_packet_reserve b pk n) (\<lambda>(ret, b1, pk1).
        if ret \<noteq> OK then Returns (ret, b1, pk1)
        else setsize_reserved n b1 pk1))"

subsection \<open>Cursor and payload: seek, tell, write, read\<close>

text \<open>\<^verbatim>\<open>ps_packet_seek\<close> in two steps: the two bounds checks with the reservation
  (\<open>seek_reserve\<close>), and the move of the cursor with the update of the header's size
  (\<open>seek_move\<close>, where \<open>h\<close> is the local \<^verbatim>\<open>header\<close>).\<close>

definition seek_reserve ::
  "ps_buffer_t \<Rightarrow> ps_packet_t \<Rightarrow> size_t \<Rightarrow> (errno \<times> ps_buffer_t \<times> ps_packet_t) outcome" where
  "seek_reserve b pk p =
     (if (PS_PACKET_SIZE_SET \<in> p_flags pk \<or> PS_PACKET_READ \<in> p_flags pk)
         \<and> p > header_size (buffer b) (the (header pk))
        then Returns (EINVAL, b, pk)
      else if PS_PACKET_SIZE_SET \<notin> p_flags pk \<and> PS_PACKET_WRITE \<in> p_flags pk then
        (if p + hdr_size > s_size (state b) then Returns (EINVAL, b, pk)
         else ps_packet_reserve b pk p)
      else Returns (OK, b, pk))"

definition seek_move ::
  "size_t \<Rightarrow> ps_buffer_t \<Rightarrow> ps_packet_t \<Rightarrow> size_t \<Rightarrow> ps_buffer_t \<times> ps_packet_t" where
  "seek_move h b1 pk1 p =
     ((if PS_PACKET_SIZE_SET \<notin> p_flags pk1 \<and> PS_PACKET_WRITE \<in> p_flags pk1
          \<and> p > header_size (buffer b1) h
       then b1\<lparr>buffer := set_header_size (buffer b1) h p\<rparr> else b1),
      pk1\<lparr>pos := p\<rparr>)"

definition ps_packet_seek ::
  "ps_buffer_t \<Rightarrow> ps_packet_t \<Rightarrow> size_t \<Rightarrow> (errno \<times> ps_buffer_t \<times> ps_packet_t) outcome" where
  "ps_packet_seek b pk p =
     (if ps_packet_check b pk \<noteq> OK then Returns (ps_packet_check b pk, b, pk)
      else bind_outcome (seek_reserve b pk p) (\<lambda>(ret, b1, pk1).
        if ret \<noteq> OK then Returns (ret, b1, pk1)
        else Returns (OK, seek_move (the (header pk)) b1 pk1 p)))"

text \<open>\<^verbatim>\<open>int ps_packet_tell(ps_packet_t *packet, size_t *pos)\<close>: the third argument is
  the value stored at \<^verbatim>\<open>*pos\<close> before the call; the result is the \<^verbatim>\<open>int\<close> returned
  and the value stored at \<^verbatim>\<open>*pos\<close> after the call.\<close>

definition ps_packet_tell :: "ps_buffer_t \<Rightarrow> ps_packet_t \<Rightarrow> size_t \<Rightarrow> c_int \<times> size_t" where
  "ps_packet_tell b pk out =
     (if ps_packet_check b pk \<noteq> OK then (errno_code (ps_packet_check b pk), out)
      else (ucast (pos pk), out))"

text \<open>The two \<^verbatim>\<open>memcpy\<close> calls of \<^verbatim>\<open>ps_packet_write\<close>, split where the run passes the end
  of the arena, and those of \<^verbatim>\<open>ps_packet_read\<close>, whose two parts are laid out one
  after the other in \<^verbatim>\<open>dest\<close>.\<close>

definition write_split :: "arena \<Rightarrow> size_t \<Rightarrow> size_t \<Rightarrow> byte list \<Rightarrow> size_t \<Rightarrow> arena" where
  "write_split m sz offs src n =
     (if offs + n > sz then
        let rlen = n - (sz - offs)
        in memcpy_to (memcpy_to m (unat offs) src (unat (sz - offs)))
             0 (drop (unat (n - rlen)) src) (unat rlen)
      else memcpy_to m (unat offs) src (unat n))"

definition read_split :: "arena \<Rightarrow> size_t \<Rightarrow> size_t \<Rightarrow> size_t \<Rightarrow> byte list" where
  "read_split m sz offs n =
     (if offs + n > sz then
        let rlen = n - (sz - offs)
        in memcpy_from m (unat offs) (unat (sz - offs)) @ memcpy_from m 0 (unat rlen)
      else memcpy_from m (unat offs) (unat n))"

text \<open>\<^verbatim>\<open>ps_packet_write\<close> in two steps: the bounds check with the reservation
  (\<open>write_bounds\<close>), and the copy with the update of the cursor and of the header's size
  (\<open>write_copy\<close>, where \<open>h\<close> is the local \<^verbatim>\<open>header\<close>).\<close>

definition write_bounds ::
  "ps_buffer_t \<Rightarrow> ps_packet_t \<Rightarrow> size_t \<Rightarrow> (errno \<times> ps_buffer_t \<times> ps_packet_t) outcome" where
  "write_bounds b pk n =
     (if PS_PACKET_SIZE_SET \<in> p_flags pk then
        (if pos pk + n > header_size (buffer b) (the (header pk)) then Returns (EINVAL, b, pk)
         else Returns (OK, b, pk))
      else if pos pk + n + hdr_size * 2 > s_size (state b) then Returns (ENOBUFS, b, pk)
      else ps_packet_reserve b pk (pos pk + n))"

definition write_copy ::
  "size_t \<Rightarrow> ps_buffer_t \<Rightarrow> ps_packet_t \<Rightarrow> byte list \<Rightarrow> size_t \<Rightarrow> ps_buffer_t \<times> ps_packet_t" where
  "write_copy h b1 pk1 src n =
     (let sz = s_size (state b1);
          offs = (buffer_pos pk1 + hdr_size + pos pk1) mod sz;
          m1 = write_split (buffer b1) sz offs src n;
          p = pos pk1 + n;
          m2 = (if p > header_size m1 h then set_header_size m1 h p else m1)
      in (b1\<lparr>buffer := m2\<rparr>, pk1\<lparr>pos := p\<rparr>))"

definition ps_packet_write ::
  "ps_buffer_t \<Rightarrow> ps_packet_t \<Rightarrow> byte list \<Rightarrow> size_t
     \<Rightarrow> (errno \<times> ps_buffer_t \<times> ps_packet_t) outcome" where
  "ps_packet_write b pk src n =
     (if ps_packet_check b pk \<noteq> OK then Returns (ps_packet_check b pk, b, pk)
      else bind_outcome (write_bounds b pk n) (\<lambda>(ret, b1, pk1).
        if ret \<noteq> OK then Returns (ret, b1, pk1)
        else Returns (OK, write_copy (the (header pk)) b1 pk1 src n)))"

definition ps_packet_read ::
  "ps_buffer_t \<Rightarrow> ps_packet_t \<Rightarrow> size_t \<Rightarrow> errno \<times> ps_packet_t \<times> byte list" where
  "ps_packet_read b pk n =
     (if ps_packet_check b pk \<noteq> OK then (ps_packet_check b pk, pk, [])
      else if pos pk + n > header_size (buffer b) (the (header pk)) then (EINVAL, pk, [])
      else
        let sz = s_size (state b);
            offs = (buffer_pos pk + hdr_size + pos pk) mod sz
        in (OK, pk\<lparr>pos := pos pk + n\<rparr>, read_split (buffer b) sz offs n))"

definition ps_packet_getsize :: "ps_buffer_t \<Rightarrow> ps_packet_t \<Rightarrow> errno \<times> size_t option" where
  "ps_packet_getsize b pk =
     (if ps_packet_check b pk \<noteq> OK then (ps_packet_check b pk, None)
      else (OK, Some (header_size (buffer b) (the (header pk)))))"

subsection \<open>Opening a packet\<close>

definition ps_packet_openread ::
  "ps_buffer_t \<Rightarrow> ps_packet_t \<Rightarrow> packet_flag set
     \<Rightarrow> (errno \<times> ps_buffer_t \<times> ps_packet_t) outcome" where
  "ps_packet_openread b pk flags =
     (if read_mutex (state b) then
        (if PS_PACKET_TRY \<in> flags then Returns (EBUSY, b, pk) else Blocks)
      else if PS_BUFFER_CANCELLED \<in> s_flags (state b) then Returns (EINTR, b, pk)
      else
        let locked = b\<lparr>state := (state b)\<lparr>read_mutex := True\<rparr>\<rparr>
        in bind_outcome
          (if PS_PACKET_TRY \<in> flags then
             (case sem_trywait (written_packets (state b)) of
                None \<Rightarrow> Returns (EBUSY, b)
              | Some c \<Rightarrow> Returns (OK, locked\<lparr>state := (state locked)\<lparr>written_packets := c\<rparr>\<rparr>))
           else
             (case sem_wait_retry MAX_SEM_WAIT_TRIES (pending_signals b)
                     (written_packets (state b)) of
                Blocks \<Rightarrow> Blocks
              | Aborts \<Rightarrow> Aborts
              | Returns (ok, sigs, c) \<Rightarrow>
                  if ok
                  then Returns (OK, locked\<lparr>state := (state locked)\<lparr>written_packets := c\<rparr>,
                                          pending_signals := sigs\<rparr>)
                  else Returns (EINVAL, b\<lparr>pending_signals := sigs\<rparr>)))
          (\<lambda>(ret, b1).
            if ret \<noteq> OK then Returns (ret, b1, pk)
            else if PS_BUFFER_CANCELLED \<in> s_flags (state b1)
              then Returns (EINTR, b1\<lparr>state := (state b1)\<lparr>read_mutex := False\<rparr>\<rparr>, pk)
            else
              let s1 = state b1;
                  p = read_next s1;
                  rn = int_to_size_t (move_pos p (s_size s1) (header_size (buffer b1) p))
              in Returns (OK,
                   b1\<lparr>state := s1\<lparr>read_next := rn, read_mutex := False\<rparr>\<rparr>,
                   pk\<lparr>p_flags := flags - {PS_PACKET_TRY}, buffer_pos := p,
                      header := Some p, pos := 0\<rparr>)))"

definition ps_packet_openwrite ::
  "ps_buffer_t \<Rightarrow> ps_packet_t \<Rightarrow> packet_flag set
     \<Rightarrow> (errno \<times> ps_buffer_t \<times> ps_packet_t) outcome" where
  "ps_packet_openwrite b pk flags =
     (if write_mutex (state b) then
        (if PS_PACKET_TRY \<in> flags then Returns (EBUSY, b, pk) else Blocks)
      else if PS_BUFFER_CANCELLED \<in> s_flags (state b) then Returns (EINTR, b, pk)
      else
        let p = write_next (state b);
            m = set_header_size (set_header_flags (buffer b) p 0) p 0
        in Returns (OK,
             b\<lparr>state := (state b)\<lparr>write_mutex := True\<rparr>, buffer := m\<rparr>,
             pk\<lparr>reserved := 0, p_flags := flags, buffer_pos := p, header := Some p, pos := 0\<rparr>))"

definition ps_packet_open ::
  "ps_buffer_t \<Rightarrow> ps_packet_t \<Rightarrow> packet_flag set
     \<Rightarrow> (errno \<times> ps_buffer_t \<times> ps_packet_t) outcome" where
  "ps_packet_open b pk flags =
     (if ps_buffer_check b \<noteq> OK then Returns (ps_buffer_check b, b, pk)
      else if \<not> (PS_PACKET_READ \<in> flags \<or> PS_PACKET_WRITE \<in> flags) then Returns (EINVAL, b, pk)
      else if PS_PACKET_READ \<in> flags then ps_packet_openread b pk flags
      else ps_packet_openwrite b pk flags)"

subsection \<open>Closing and cancelling a packet\<close>

text \<open>\<^verbatim>\<open>ps_packet_fakedma_commitall\<close>: every entry in use is written back through
  \<^verbatim>\<open>ps_packet_seek\<close> and \<^verbatim>\<open>ps_packet_write\<close>, then marked free. The second argument
  is the index of the entry in the list of the handle.\<close>

fun fakedma_commit_loop ::
  "ps_fake_dma_s list \<Rightarrow> nat \<Rightarrow> ps_buffer_t \<Rightarrow> ps_packet_t
     \<Rightarrow> (errno \<times> ps_buffer_t \<times> ps_packet_t) outcome" where
  "fakedma_commit_loop [] i b pk = Returns (OK, b, pk)"
| "fakedma_commit_loop (d # ds) i b pk =
     (if dma_free d then fakedma_commit_loop ds (Suc i) b pk
      else bind_outcome (ps_packet_seek b pk (dma_pos d)) (\<lambda>(ret, b1, pk1).
        if ret \<noteq> OK then Returns (ret, b1, pk1)
        else bind_outcome (ps_packet_write b1 pk1 (mem d) (dma_size d)) (\<lambda>(ret2, b2, pk2).
          if ret2 \<noteq> OK then Returns (ret2, b2, pk2)
          else fakedma_commit_loop ds (Suc i) b2
                 (pk2\<lparr>fake_dma := (fake_dma pk2)[i := ps_packet_fakedma_free d]\<rparr>))))"

definition ps_packet_fakedma_commitall ::
  "ps_buffer_t \<Rightarrow> ps_packet_t \<Rightarrow> (errno \<times> ps_buffer_t \<times> ps_packet_t) outcome" where
  "ps_packet_fakedma_commitall b pk = fakedma_commit_loop (fake_dma pk) 0 b pk"

text \<open>The \<^verbatim>\<open>do ... while\<close> loop of \<^verbatim>\<open>ps_packet_closewrite\<close> (flag
  \<open>PS_PACKET_HEADER_WRITTEN\<close>, semaphore \<^verbatim>\<open>written_packets\<close>) and of
  \<^verbatim>\<open>ps_packet_closeread\<close> (flag \<open>PS_PACKET_HEADER_READ\<close>, semaphore
  \<^verbatim>\<open>read_packets\<close>): \<open>p\<close> is \<^verbatim>\<open>pos\<close>, \<open>h\<close> the header pointer, \<open>c\<close> the count of the
  semaphore. It returns the position it stops at and the count; a failing
  \<^verbatim>\<open>sem_post\<close> aborts.\<close>

function close_walk ::
  "ps_flags_t \<Rightarrow> arena \<Rightarrow> size_t \<Rightarrow> size_t \<Rightarrow> size_t \<Rightarrow> nat \<Rightarrow> (size_t \<times> nat) outcome" where
  "close_walk f m sz p h c =
     (let p1 = int_to_size_t (move_pos p sz (header_size m h)) in
      case sem_post c of
        None \<Rightarrow> Aborts
      | Some c1 \<Rightarrow>
          if header_flags m p1 AND f \<noteq> 0 then close_walk f m sz p1 p1 c1
          else Returns (p1, c1))"
  by pat_completeness auto
termination
  by (relation "measure (\<lambda>(f, m, sz, p, h, c). SEM_VALUE_MAX - c)")
     (auto simp: sem_post_def split: if_splits)

declare close_walk.simps [simp del]

text \<open>\<^verbatim>\<open>ps_packet_closewrite\<close> in its two phases. The first freezes the size if it is
  not yet set and writes the staged fake-DMA entries back; an error of either is
  returned as it is.\<close>

definition closewrite_prepare ::
  "ps_buffer_t \<Rightarrow> ps_packet_t \<Rightarrow> (errno \<times> ps_buffer_t \<times> ps_packet_t) outcome" where
  "closewrite_prepare b pk =
     bind_outcome
       (if PS_PACKET_SIZE_SET \<notin> p_flags pk
        then ps_packet_setsize b pk (header_size (buffer b) (the (header pk)))
        else Returns (OK, b, pk))
       (\<lambda>(ret, b1, pk1).
         if ret \<noteq> OK then Returns (ret, b1, pk1)
         else ps_packet_fakedma_commitall b1 pk1)"

text \<open>The second phase, under \<^verbatim>\<open>write_close_mutex\<close>: \<open>h\<close> is the local \<^verbatim>\<open>header\<close>, set
  from \<^verbatim>\<open>packet->header\<close> on entry of \<^verbatim>\<open>ps_packet_closewrite\<close>.\<close>

definition closewrite_commit ::
  "size_t \<Rightarrow> ps_buffer_t \<Rightarrow> ps_packet_t \<Rightarrow> (errno \<times> ps_buffer_t \<times> ps_packet_t) outcome" where
  "closewrite_commit h b2 pk2 =
     (if write_close_mutex (state b2) then Blocks
      else
        let st = (if PS_BUFFER_STATS \<in> s_flags (state b2)
                  then map_option (\<lambda>t. t
                         \<lparr>stats_written_packets := stats_written_packets t + 1,
                          stats_written_bytes :=
                            stats_written_bytes t + header_size (buffer b2) h\<rparr>) (stats b2)
                  else stats b2);
            m = set_header_flags (buffer b2) h
                  (header_flags (buffer b2) h OR PS_PACKET_HEADER_WRITTEN);
            closed = pk2\<lparr>header := None, p_flags := {}\<rparr>
        in if write_pos (state b2) = buffer_pos pk2 then
             bind_outcome
               (close_walk PS_PACKET_HEADER_WRITTEN m (s_size (state b2))
                  (buffer_pos pk2) h (written_packets (state b2)))
               (\<lambda>(p, c). Returns (OK,
                  b2\<lparr>state := (state b2)\<lparr>write_pos := p, written_packets := c,
                                         write_close_mutex := False\<rparr>,
                     buffer := m, stats := st\<rparr>, closed))
           else Returns (OK,
                  b2\<lparr>state := (state b2)\<lparr>write_close_mutex := False\<rparr>,
                     buffer := m, stats := st\<rparr>, closed))"

definition ps_packet_closewrite ::
  "ps_buffer_t \<Rightarrow> ps_packet_t \<Rightarrow> (errno \<times> ps_buffer_t \<times> ps_packet_t) outcome" where
  "ps_packet_closewrite b pk =
     bind_outcome (closewrite_prepare b pk) (\<lambda>(ret, b2, pk2).
       if ret \<noteq> OK then Returns (ret, b2, pk2)
       else closewrite_commit (the (header pk)) b2 pk2)"

definition ps_packet_closeread ::
  "ps_buffer_t \<Rightarrow> ps_packet_t \<Rightarrow> (errno \<times> ps_buffer_t \<times> ps_packet_t) outcome" where
  "ps_packet_closeread b pk =
     (let h = the (header pk) in
      if read_close_mutex (state b) then Blocks
      else
        let st = (if PS_BUFFER_STATS \<in> s_flags (state b)
                  then map_option (\<lambda>t. t
                         \<lparr>stats_read_packets := stats_read_packets t + 1,
                          stats_read_bytes := stats_read_bytes t + header_size (buffer b) h\<rparr>)
                         (stats b)
                  else stats b);
            m = set_header_flags (buffer b) h (header_flags (buffer b) h OR PS_PACKET_HEADER_READ);
            closed = (ps_packet_fakedma_freeall pk)\<lparr>header := None, p_flags := {}\<rparr>
        in if read_pos (state b) = buffer_pos pk then
             bind_outcome
               (close_walk PS_PACKET_HEADER_READ m (s_size (state b))
                  (buffer_pos pk) h (read_packets (state b)))
               (\<lambda>(p, c). Returns (OK,
                  b\<lparr>state := (state b)\<lparr>read_pos := p, read_packets := c,
                                       read_close_mutex := False\<rparr>,
                    buffer := m, stats := st\<rparr>, closed))
           else Returns (OK,
                  b\<lparr>state := (state b)\<lparr>read_close_mutex := False\<rparr>,
                    buffer := m, stats := st\<rparr>, closed))"

definition ps_packet_close ::
  "ps_buffer_t \<Rightarrow> ps_packet_t \<Rightarrow> (errno \<times> ps_buffer_t \<times> ps_packet_t) outcome" where
  "ps_packet_close b pk =
     (if ps_packet_check b pk \<noteq> OK then Returns (ps_packet_check b pk, b, pk)
      else
        let pk1 = pk\<lparr>p_flags := p_flags pk - {PS_PACKET_TRY}\<rparr>
        in if PS_PACKET_READ \<in> p_flags pk1 then ps_packet_closeread b pk1
           else ps_packet_closewrite b pk1)"

definition ps_packet_cancel ::
  "ps_buffer_t \<Rightarrow> ps_packet_t \<Rightarrow> errno \<times> ps_buffer_t \<times> ps_packet_t" where
  "ps_packet_cancel b pk =
     (if ps_packet_check b pk \<noteq> OK then (ps_packet_check b pk, b, pk)
      else if PS_PACKET_WRITE \<notin> p_flags pk then (EINVAL, b, pk)
      else if PS_PACKET_SIZE_SET \<in> p_flags pk then (EINVAL, b, pk)
      else
        (OK,
         b\<lparr>state := (state b)\<lparr>free_bytes := free_bytes (state b) + reserved pk,
                              write_mutex := False\<rparr>,
           buffer := memset0 (buffer b) (unat (the (header pk))) (unat hdr_size)\<rparr>,
         (ps_packet_fakedma_freeall pk)\<lparr>header := None, p_flags := {}\<rparr>))"

subsection \<open>Buffer operations: drain, cancel, init\<close>






definition ps_buffer_cancel :: "ps_buffer_t \<Rightarrow> errno \<times> ps_buffer_t" where
  "ps_buffer_cancel b =
     (if ps_buffer_check b \<noteq> OK then (ps_buffer_check b, b)
      else
        let s = state b;
            rp = (case sem_post (read_packets s) of None \<Rightarrow> read_packets s | Some c \<Rightarrow> c);
            wp = (case sem_post (written_packets s) of None \<Rightarrow> written_packets s | Some c \<Rightarrow> c)
        in (OK, b\<lparr>state := s\<lparr>s_flags := insert PS_BUFFER_CANCELLED (s_flags s),
                               read_packets := rp, written_packets := wp,
                               read_mutex := False, write_mutex := False\<rparr>\<rparr>))"

text \<open>Modelled from the spec: \<^verbatim>\<open>ps_bufferattr_t\<close> (the configuration object
  \<open>{size, flags, shmid, shmmode}\<close>) is declared in \<^verbatim>\<open>packetstream.h\<close>; \<open>attr_shmid\<close> is
  \<open>None\<close> for \<^verbatim>\<open>PS_SHM_CREATE\<close>.\<close>

record ps_bufferattr_t =
  attr_size :: size_t
  attr_flags :: "buffer_flag set"
  attr_shmid :: "int option"
  attr_shmmode :: int

text \<open>What the allocation calls of \<^verbatim>\<open>ps_buffer_init\<close> return: for each \<^verbatim>\<open>malloc\<close>
  \<open>None\<close> (NULL) or the contents of the fresh, uninitialised memory; for
  \<^verbatim>\<open>shmget\<close> the identifier (\<open>-1\<close> on failure); for \<^verbatim>\<open>shmat\<close> \<open>None\<close> on failure or
  the contents of the attached segment; \<open>alloc_errno\<close> is the value of \<^verbatim>\<open>errno\<close> after
  a failure.\<close>

record alloc_env =
  malloc_state :: "ps_state_s option"
  malloc_buffer :: "arena option"
  malloc_stats :: "ps_stats_t option"
  shmget_id :: int
  shmat_segment :: "(ps_state_s \<times> ps_stats_t \<times> arena) option"
  alloc_errno :: errno
  env_signals :: nat

definition zero_state :: ps_state_s where
  "zero_state = \<lparr>s_flags = {}, s_size = 0, read_pos = 0, write_pos = 0, read_next = 0,
     write_next = 0, read_first = 0, free_bytes = 0, read_mutex = False, write_mutex = False,
     read_close_mutex = False, write_close_mutex = False, read_packets = 0,
     written_packets = 0\<rparr>"

definition zero_stats :: ps_stats_t where
  "zero_stats = \<lparr>stats_written_packets = 0, stats_written_bytes = 0, stats_read_packets = 0,
     stats_read_bytes = 0\<rparr>"

text \<open>The part of \<^verbatim>\<open>ps_buffer_init\<close> after the allocations: \<open>st\<close>, \<open>m\<close> and \<open>sp\<close> are
  what \<^verbatim>\<open>buffer->state\<close>, \<^verbatim>\<open>buffer->buffer\<close> and \<^verbatim>\<open>buffer->stats\<close> point to.\<close>

definition init_allocated ::
  "ps_bufferattr_t \<Rightarrow> buffer_flag set \<Rightarrow> int option \<Rightarrow> nat \<Rightarrow> ps_state_s \<Rightarrow> arena
     \<Rightarrow> ps_stats_t option \<Rightarrow> ps_buffer_t" where
  "init_allocated attr flags seg sigs st m sp =
     (if PS_BUFFER_READY \<in> flags
      then \<lparr>state = st, buffer = m, stats = sp, shmid = Some 0, pending_signals = sigs\<rparr>
      else
        \<lparr>state = zero_state
           \<lparr>s_size := attr_size attr,
            s_flags := insert PS_BUFFER_READY flags,
            free_bytes := attr_size attr - hdr_size\<rparr>,
         buffer = memset0 m 0 (unat (attr_size attr)),
         stats = (if PS_BUFFER_STATS \<in> flags then map_option (\<lambda>_. zero_stats) sp else sp),
         shmid = seg,
         pending_signals = sigs\<rparr>)"

definition ps_buffer_init :: "ps_bufferattr_t \<Rightarrow> alloc_env \<Rightarrow> errno \<times> ps_buffer_t option" where
  "ps_buffer_init attr env =
     (let flags = attr_flags attr in
      if PS_BUFFER_PSHARED \<in> flags then
        (let seg = (case attr_shmid attr of None \<Rightarrow> shmget_id env | Some i \<Rightarrow> i);
             flags1 = (case attr_shmid attr of None \<Rightarrow> flags
                       | Some i \<Rightarrow> insert PS_BUFFER_READY flags)
         in if seg = - 1 then (alloc_errno env, None)
            else
              (case shmat_segment env of
                 None \<Rightarrow> (alloc_errno env, None)
               | Some (st, sp, m) \<Rightarrow>
                   (OK, Some (init_allocated attr flags1 (Some seg) (env_signals env) st m
                                (if PS_BUFFER_STATS \<in> flags1 then Some sp else None)))))
      else
        (case (malloc_buffer env, malloc_state env) of
           (Some m, Some st) \<Rightarrow>
             let sp = (if PS_BUFFER_STATS \<in> flags then malloc_stats env else None)
             in if PS_BUFFER_STATS \<in> flags \<and> sp = None then (ENOMEM, None)
                else (OK, Some (init_allocated attr flags (attr_shmid attr) (env_signals env)
                                  st m sp))
         | _ \<Rightarrow> (ENOMEM, None)))"

subsection \<open>Example states\<close>

text \<open>A configuration of 64 bytes, the memory \<^verbatim>\<open>malloc\<close> hands out for it and the buffer
  \<^verbatim>\<open>ps_buffer_init\<close> makes of them; then the buffer and the write handle after
  \<^verbatim>\<open>ps_packet_open\<close> and a \<^verbatim>\<open>ps_packet_seek\<close> to 5.\<close>

definition example_attr :: ps_bufferattr_t where
  "example_attr = \<lparr>attr_size = 64, attr_flags = {}, attr_shmid = None, attr_shmmode = 384\<rparr>"

definition example_env :: alloc_env where
  "example_env = \<lparr>malloc_state = Some (zero_state\<lparr>read_pos := 7, free_bytes := 99\<rparr>),
     malloc_buffer = Some (\<lambda>_. 170), malloc_stats = None, shmget_id = - 1,
     shmat_segment = None, alloc_errno = ENOMEM, env_signals = 0\<rparr>"

definition example_buffer :: ps_buffer_t where
  "example_buffer =
     \<lparr>state = zero_state\<lparr>s_size := 64, s_flags := {PS_BUFFER_READY}, free_bytes := 48\<rparr>,
      buffer = memset0 (\<lambda>_. 170) 0 64, stats = None, shmid = None, pending_signals = 0\<rparr>"

definition example_closed :: ps_packet_t where
  "example_closed = \<lparr>p_flags = {}, buffer_pos = 0, header = None, pos = 0, reserved = 0,
     fake_dma = []\<rparr>"

definition example_open :: ps_buffer_t where
  "example_open =
     \<lparr>state = zero_state\<lparr>s_size := 64, s_flags := {PS_BUFFER_READY}, free_bytes := 43,
                          write_mutex := True\<rparr>,
      buffer = set_header_size
                 (set_header_size (set_header_flags (memset0 (\<lambda>_. 170) 0 64) 0 0) 0 0) 0 5,
      stats = None, shmid = None, pending_signals = 0\<rparr>"

definition example_packet :: ps_packet_t where
  "example_packet = \<lparr>p_flags = {PS_PACKET_WRITE}, buffer_pos = 0, header = Some 0, pos = 5,
     reserved = 5, fake_dma = []\<rparr>"

definition example_dma_packet :: ps_packet_t where
  "example_dma_packet = example_packet\<lparr>fake_dma :=
     [\<lparr>mem = [1, 2, 3], mem_size = 3, dma_size = 3, dma_pos = 2, dma_free = False\<rparr>]\<rparr>"

lemmas example_defs = example_buffer_def example_open_def example_closed_def example_packet_def
  example_dma_packet_def zero_state_def example_attr_def example_env_def

definition example_big :: ps_buffer_t where
  "example_big =
     \<lparr>state = zero_state\<lparr>s_size := 4294967296, s_flags := {PS_BUFFER_READY},
                          read_first := 2147483648, read_next := 2147483648,
                          read_pos := 2147483648, free_bytes := 100\<rparr>,
      buffer = (\<lambda>_. 0), stats = None, shmid = None, pending_signals = 0\<rparr>"

text \<open>An arena of 64 bytes whose first packet (16 bytes of payload at offset 0) has
  been written, read and released but not yet reclaimed, and a \<^verbatim>\<open>TRY\<close> write handle on
  the header at offset 32.\<close>

definition example_released :: ps_buffer_t where
  "example_released =
     \<lparr>state = zero_state\<lparr>s_size := 64, s_flags := {PS_BUFFER_READY}, read_pos := 32,
                          write_pos := 32, read_next := 32, write_next := 32, read_first := 0,
                          free_bytes := 16, write_mutex := True, read_packets := 1\<rparr>,
      buffer = set_header_size (set_header_flags (\<lambda>_. 0) 0 3) 0 16,
      stats = None, shmid = None, pending_signals = 0\<rparr>"

definition example_try_packet :: ps_packet_t where
  "example_try_packet = \<lparr>p_flags = {PS_PACKET_WRITE, PS_PACKET_TRY}, buffer_pos = 32,
     header = Some 32, pos = 0, reserved = 0, fake_dma = []\<rparr>"

text \<open>An arena of 64 bytes whose write head is at offset 32, with a write handle that
  has written 10 bytes: the next 12 bytes of payload run from offset 58 past the end of
  the arena.\<close>

definition example_wrap :: ps_buffer_t where
  "example_wrap =
     \<lparr>state = zero_state\<lparr>s_size := 64, s_flags := {PS_BUFFER_READY}, read_pos := 32,
                          write_pos := 32, read_next := 32, write_next := 32, read_first := 32,
                          free_bytes := 38, write_mutex := True\<rparr>,
      buffer = set_header_size (memset0 (\<lambda>_. 170) 0 64) 32 10,
      stats = None, shmid = None, pending_signals = 0\<rparr>"

definition example_wrap_packet :: ps_packet_t where
  "example_wrap_packet = \<lparr>p_flags = {PS_PACKET_WRITE}, buffer_pos = 32, header = Some 32,
     pos = 10, reserved = 10, fake_dma = []\<rparr>"

text \<open>An arena of 128 bytes with the write head at offset 64 and two packets whose
  sizes are set: 8 bytes of payload behind the header at 64, 10 bytes behind the header
  at 88, and the next header at 0, since a header at 114 would pass the end of the
  arena. In \<open>example_ring\<close> neither packet is committed, in \<open>example_ring_pending\<close> the
  second one is, ahead of the first, and in \<open>example_ring_committed\<close> both are and no
  reader has claimed them; in \<open>example_ring_held\<close> a reader still holds an earlier packet
  at offset 40.\<close>

definition example_ring :: ps_buffer_t where
  "example_ring =
     \<lparr>state = zero_state\<lparr>s_size := 128, s_flags := {PS_BUFFER_READY}, read_pos := 64,
                          write_pos := 64, read_next := 64, write_next := 0, read_first := 64,
                          free_bytes := 48\<rparr>,
      buffer = set_header_size (set_header_size (memset0 (\<lambda>_. 170) 0 128) 64 8) 88 10,
      stats = None, shmid = None, pending_signals = 0\<rparr>"

definition example_ring_pending :: ps_buffer_t where
  "example_ring_pending =
     example_ring\<lparr>buffer := set_header_flags (buffer example_ring) 88 1\<rparr>"

definition example_ring_first :: ps_packet_t where
  "example_ring_first = \<lparr>p_flags = {PS_PACKET_WRITE, PS_PACKET_SIZE_SET}, buffer_pos = 64,
     header = Some 64, pos = 8, reserved = 24, fake_dma = []\<rparr>"

definition example_ring_second :: ps_packet_t where
  "example_ring_second = \<lparr>p_flags = {PS_PACKET_WRITE, PS_PACKET_SIZE_SET}, buffer_pos = 88,
     header = Some 88, pos = 10, reserved = 40, fake_dma = []\<rparr>"

definition example_ring_committed :: ps_buffer_t where
  "example_ring_committed =
     \<lparr>state = zero_state\<lparr>s_size := 128, s_flags := {PS_BUFFER_READY}, read_pos := 64,
                          write_pos := 0, read_next := 64, write_next := 0, read_first := 64,
                          free_bytes := 48, written_packets := 2\<rparr>,
      buffer = set_header_flags (set_header_flags (buffer example_ring) 88 1) 64 1,
      stats = None, shmid = None, pending_signals = 0\<rparr>"

definition example_ring_held :: ps_buffer_t where
  "example_ring_held =
     example_ring_committed\<lparr>state := (state example_ring_committed)\<lparr>read_pos := 40\<rparr>\<rparr>"

section \<open>Properties\<close>

subsection \<open>Case analysis of the loops of \<^verbatim>\<open>ps_packet_reserve\<close>\<close>

lemma reclaim_read_first_fields [simp]:
  "buffer (reclaim_read_first b) = buffer b"
  "stats (reclaim_read_first b) = stats b"
  "shmid (reclaim_read_first b) = shmid b"
  "pending_signals (reclaim_read_first b) = pending_signals b"
  "s_flags (state (reclaim_read_first b)) = s_flags (state b)"
  "s_size (state (reclaim_read_first b)) = s_size (state b)"
  "read_pos (state (reclaim_read_first b)) = read_pos (state b)"
  "write_pos (state (reclaim_read_first b)) = write_pos (state b)"
  "read_next (state (reclaim_read_first b)) = read_next (state b)"
  "write_next (state (reclaim_read_first b)) = write_next (state b)"
  "read_mutex (state (reclaim_read_first b)) = read_mutex (state b)"
  "write_mutex (state (reclaim_read_first b)) = write_mutex (state b)"
  "read_close_mutex (state (reclaim_read_first b)) = read_close_mutex (state b)"
  "write_close_mutex (state (reclaim_read_first b)) = write_close_mutex (state b)"
  "read_packets (state (reclaim_read_first b)) = read_packets (state b)"
  "written_packets (state (reclaim_read_first b)) = written_packets (state b)"
  by (simp_all add: reclaim_read_first_def Let_def)

lemma reserve_reclaim_cases [consumes 1, case_names cancelled last more]:
  assumes "reserve_reclaim b = r"
    and "\<And>b. PS_BUFFER_CANCELLED \<in> s_flags (state b) \<Longrightarrow>
           P b (EINTR, (reclaim_read_first b)\<lparr>state := (state (reclaim_read_first b))\<lparr>write_mutex := False\<rparr>\<rparr>)"
    and "\<And>b. PS_BUFFER_CANCELLED \<notin> s_flags (state b) \<Longrightarrow> read_packets (state b) = 0 \<Longrightarrow>
           P b (OK, reclaim_read_first b)"
    and "\<And>b c r. PS_BUFFER_CANCELLED \<notin> s_flags (state b) \<Longrightarrow> read_packets (state b) = Suc c \<Longrightarrow>
           reserve_reclaim ((reclaim_read_first b)\<lparr>state := (state (reclaim_read_first b))\<lparr>read_packets := c\<rparr>\<rparr>) = r \<Longrightarrow>
           P ((reclaim_read_first b)\<lparr>state := (state (reclaim_read_first b))\<lparr>read_packets := c\<rparr>\<rparr>) r \<Longrightarrow>
           P b r"
  shows "P b r"
  using assms(1)
proof (induction b arbitrary: r rule: reserve_reclaim.induct)
  case (1 b)
  let ?b1 = "reclaim_read_first b"
  show ?case
  proof (cases "PS_BUFFER_CANCELLED \<in> s_flags (state b)")
    case True
    with "1.prems" have "r = (EINTR, ?b1\<lparr>state := (state ?b1)\<lparr>write_mutex := False\<rparr>\<rparr>)"
      by (subst (asm) reserve_reclaim.simps) (simp add: Let_def)
    with assms(2)[OF True] show ?thesis by simp
  next
    case False
    show ?thesis
    proof (cases "read_packets (state b)")
      case 0
      with False "1.prems" have "r = (OK, ?b1)"
        by (subst (asm) reserve_reclaim.simps) (simp add: Let_def sem_trywait_def)
      with assms(3)[OF False 0] show ?thesis by simp
    next
      case (Suc c)
      let ?b2 = "?b1\<lparr>state := (state ?b1)\<lparr>read_packets := c\<rparr>\<rparr>"
      from False Suc "1.prems" have r: "reserve_reclaim ?b2 = r"
        by (subst (asm) reserve_reclaim.simps) (simp add: Let_def sem_trywait_def)
      have "P ?b2 r"
        by (rule "1.IH"[OF refl _ _ r]) (use False Suc in \<open>simp_all add: sem_trywait_def\<close>)
      from assms(4)[OF False Suc r this] show ?thesis .
    qed
  qed
qed

lemma reserve_loop_cases [consumes 1, case_names enough failed interrupted again]:
  assumes "reserve_loop b pk len = Returns r"
    and "\<And>b. \<not> sint (free_bytes (state b)) < 0 \<Longrightarrow> P b (OK, b, pk\<lparr>reserved := len\<rparr>)"
    and "\<And>b e b1. sint (free_bytes (state b)) < 0 \<Longrightarrow> reserve_wait b pk = Returns (e, b1) \<Longrightarrow> e \<noteq> OK \<Longrightarrow>
           P b (e, b1\<lparr>state := (state b1)\<lparr>free_bytes := free_bytes (state b1) + (len - reserved pk)\<rparr>\<rparr>, pk)"
    and "\<And>b b1 e2 b2. sint (free_bytes (state b)) < 0 \<Longrightarrow> reserve_wait b pk = Returns (OK, b1) \<Longrightarrow>
           reserve_reclaim b1 = (e2, b2) \<Longrightarrow> e2 \<noteq> OK \<Longrightarrow> P b (e2, b2, pk)"
    and "\<And>b b1 b2 r. sint (free_bytes (state b)) < 0 \<Longrightarrow> reserve_wait b pk = Returns (OK, b1) \<Longrightarrow>
           reserve_reclaim b1 = (OK, b2) \<Longrightarrow> reserve_loop b2 pk len = Returns r \<Longrightarrow> P b2 r \<Longrightarrow> P b r"
  shows "P b r"
  using assms
proof (induction b pk len arbitrary: r rule: reserve_loop.induct)
  case (1 b pk len)
  note run = "1.prems"(1) and enough = "1.prems"(2) and failed = "1.prems"(3)
    and interrupted = "1.prems"(4) and again = "1.prems"(5)
  show ?case
  proof (cases "sint (free_bytes (state b)) < 0")
    case False
    with run have "r = (OK, b, pk\<lparr>reserved := len\<rparr>)"
      by (subst (asm) reserve_loop.simps) simp
    with enough[OF False] show ?thesis by simp
  next
    case neg: True
    show ?thesis
    proof (cases "reserve_wait b pk")
      case (Returns x)
      obtain e1 b1 where x: "x = (e1, b1)" by (cases x)
      show ?thesis
      proof (cases "e1 = OK")
        case False
        with neg Returns x run
        have "r = (e1, b1\<lparr>state := (state b1)\<lparr>free_bytes := free_bytes (state b1) + (len - reserved pk)\<rparr>\<rparr>, pk)"
          by (subst (asm) reserve_loop.simps) simp
        with failed[OF neg Returns[unfolded x] False] show ?thesis by simp
      next
        case True
        obtain e2 b2 where rr: "reserve_reclaim b1 = (e2, b2)" by (cases "reserve_reclaim b1")
        show ?thesis
        proof (cases "e2 = OK")
          case False
          with neg Returns x True rr run have "r = (e2, b2, pk)"
            by (subst (asm) reserve_loop.simps) (cases e2; simp)
          with interrupted[OF neg Returns[unfolded x True] rr False] show ?thesis by simp
        next
          case e2: True
          with neg Returns x True rr run have r: "reserve_loop b2 pk len = Returns r"
            by (subst (asm) reserve_loop.simps) simp
          have "P b2 r"
          proof (rule "1.IH"[OF _ Returns _ _ _ _ r])
            show "\<not> \<not> sint (free_bytes (state b)) < 0" using neg by simp
            show "(e1, b1) = x" using x by simp
            show "\<not> e1 \<noteq> OK" using True by simp
            show "(e2, b2) = reserve_reclaim b1" using rr by simp
            show "e2 = OK" by (rule e2)
          qed (fact enough failed interrupted again)+
          from again[OF neg Returns[unfolded x True] rr[unfolded e2] r this] show ?thesis .
        qed
      qed
    next
      case Blocks
      with neg run show ?thesis by (subst (asm) reserve_loop.simps) simp
    next
      case Aborts
      with neg run show ?thesis by (subst (asm) reserve_loop.simps) simp
    qed
  qed
qed


subsection \<open>What \<^verbatim>\<open>ps_packet_reserve\<close> leaves unchanged\<close>

text \<open>\<^verbatim>\<open>ps_packet_reserve\<close> writes \<^verbatim>\<open>free_bytes\<close>, \<^verbatim>\<open>read_first\<close>, the semaphore
  \<^verbatim>\<open>read_packets\<close> and, on cancellation, \<^verbatim>\<open>write_mutex\<close>; everything else stays.\<close>

definition reserve_frame :: "ps_buffer_t \<Rightarrow> ps_buffer_t \<Rightarrow> bool" where
  "reserve_frame b b' \<longleftrightarrow>
     buffer b' = buffer b \<and> stats b' = stats b \<and> shmid b' = shmid b \<and>
     s_flags (state b') = s_flags (state b) \<and> s_size (state b') = s_size (state b) \<and>
     read_pos (state b') = read_pos (state b) \<and> write_pos (state b') = write_pos (state b) \<and>
     read_next (state b') = read_next (state b) \<and> write_next (state b') = write_next (state b) \<and>
     read_mutex (state b') = read_mutex (state b) \<and>
     read_close_mutex (state b') = read_close_mutex (state b) \<and>
     write_close_mutex (state b') = write_close_mutex (state b) \<and>
     written_packets (state b') = written_packets (state b)"

lemma reserve_frame_refl [simp]: "reserve_frame b b"
  by (simp add: reserve_frame_def)

lemma reserve_frame_trans: "reserve_frame a b \<Longrightarrow> reserve_frame b c \<Longrightarrow> reserve_frame a c"
  by (simp add: reserve_frame_def)

lemma reserve_frame_upd [simp]:
  "reserve_frame b (b\<lparr>state := (state b)\<lparr>free_bytes := x\<rparr>\<rparr>)"
  "reserve_frame b (b\<lparr>state := (state b)\<lparr>read_packets := c\<rparr>\<rparr>)"
  "reserve_frame b (b\<lparr>state := (state b)\<lparr>write_mutex := w\<rparr>\<rparr>)"
  "reserve_frame b (b\<lparr>state := (state b)\<lparr>read_packets := c\<rparr>, pending_signals := g\<rparr>)"
  by (simp_all add: reserve_frame_def)

lemma reserve_frame_reclaim_read_first [simp]: "reserve_frame b (reclaim_read_first b)"
  by (simp add: reserve_frame_def)

lemma reserve_reclaim_frame:
  "reserve_reclaim b = r \<Longrightarrow> reserve_frame b (snd r) \<and> fst r \<in> {OK, EINTR}"
proof (induction b r rule: reserve_reclaim_cases)
  case (cancelled b)
  show ?case by (simp add: reserve_frame_def)
next
  case (last b)
  show ?case by simp
next
  case (more b c r)
  have "reserve_frame b ((reclaim_read_first b)\<lparr>state := (state (reclaim_read_first b))\<lparr>read_packets := c\<rparr>\<rparr>)"
    by (simp add: reserve_frame_def)
  from reserve_frame_trans[OF this] more(4) show ?case by blast
qed

lemma reserve_wait_frame:
  assumes "reserve_wait b pk = Returns (e, b1)"
  shows "reserve_frame b b1" and "e \<in> {OK, EBUSY, EINVAL}"
proof -
  show "reserve_frame b b1"
  proof (cases "PS_PACKET_TRY \<in> p_flags pk")
    case True
    with assms show ?thesis
      by (cases "sem_trywait (read_packets (state b))") (auto simp: reserve_wait_def)
  next
    case False
    with assms show ?thesis
      by (cases "sem_wait_retry MAX_SEM_WAIT_TRIES (pending_signals b) (read_packets (state b))")
         (auto simp: reserve_wait_def)
  qed
  show "e \<in> {OK, EBUSY, EINVAL}"
  proof (cases "PS_PACKET_TRY \<in> p_flags pk")
    case True
    with assms show ?thesis
      by (cases "sem_trywait (read_packets (state b))") (auto simp: reserve_wait_def)
  next
    case False
    with assms show ?thesis
      by (cases "sem_wait_retry MAX_SEM_WAIT_TRIES (pending_signals b) (read_packets (state b))")
         (auto simp: reserve_wait_def split: if_splits)
  qed
qed

lemma reserve_loop_frame:
  "reserve_loop b pk len = Returns r \<Longrightarrow>
     reserve_frame b (fst (snd r)) \<and> fst r \<in> {OK, EBUSY, EINVAL, EINTR} \<and>
     snd (snd r) = (if fst r = OK then pk\<lparr>reserved := len\<rparr> else pk)"
proof (induction b r rule: reserve_loop_cases)
  case (enough b)
  then show ?case by simp
next
  case (failed b e b1)
  from reserve_wait_frame[OF failed(2)] failed(3) show ?case
    by (auto simp: reserve_frame_def)
next
  case (interrupted b b1 e2 b2)
  from reserve_wait_frame[OF interrupted(2)] reserve_reclaim_frame[OF interrupted(3)] interrupted(4)
  show ?case by (auto simp: reserve_frame_def)
next
  case (again b b1 b2 r)
  from reserve_wait_frame[OF again(2)] reserve_reclaim_frame[OF again(3)] again(5)
  show ?case by (auto simp: reserve_frame_def)
qed

lemma ps_packet_reserve_frame:
  assumes "ps_packet_reserve b pk len = Returns (e, b', pk')"
  shows "reserve_frame b b'" and "e \<in> {OK, EBUSY, EINVAL, EINTR}"
    and "pk' = (if e = OK \<and> \<not> len \<le> reserved pk then pk\<lparr>reserved := len\<rparr> else pk)"
proof -
  have "reserve_frame b b' \<and> e \<in> {OK, EBUSY, EINVAL, EINTR} \<and>
        pk' = (if e = OK \<and> \<not> len \<le> reserved pk then pk\<lparr>reserved := len\<rparr> else pk)"
  proof (cases "len \<le> reserved pk")
    case True
    with assms show ?thesis by (simp add: ps_packet_reserve_def)
  next
    case False
    with assms have "reserve_loop
        (b\<lparr>state := (state b)\<lparr>free_bytes := free_bytes (state b) - (len - reserved pk)\<rparr>\<rparr>) pk len
        = Returns (e, b', pk')" by (simp add: ps_packet_reserve_def)
    from reserve_loop_frame[OF this] False show ?thesis
      by (auto simp: reserve_frame_def)
  qed
  then show "reserve_frame b b'" and "e \<in> {OK, EBUSY, EINVAL, EINTR}"
    and "pk' = (if e = OK \<and> \<not> len \<le> reserved pk then pk\<lparr>reserved := len\<rparr> else pk)"
    by blast+
qed


subsection \<open>Headers in the arena\<close>

lemma load_le_zero: "(\<forall>i<k. m (a + i) = 0) \<Longrightarrow> load_le m a k = 0"
proof (induction k arbitrary: a)
  case 0
  show ?case by simp
next
  case (Suc k)
  have "m a = 0" using Suc.prems[rule_format, of 0] by simp
  moreover have "load_le m (Suc a) k = 0"
  proof (rule Suc.IH, intro allI impI)
    fix i assume "i < k"
    then show "m (Suc a + i) = 0" using Suc.prems[rule_format, of "Suc i"] by simp
  qed
  ultimately show ?case by simp
qed

lemma header_memset0:
  "header_flags (memset0 m (unat h) (unat hdr_size)) h = 0"
  "header_size (memset0 m (unat h) (unat hdr_size)) h = 0"
proof -
  show "header_flags (memset0 m (unat h) (unat hdr_size)) h = 0"
    unfolding header_flags_def
    by (subst load_le_zero) (simp_all add: memset0_def hdr_size_def)
  show "header_size (memset0 m (unat h) (unat hdr_size)) h = 0"
    unfolding header_size_def
    by (subst load_le_zero) (simp_all add: memset0_def hdr_size_def)
qed


lemma sint_ucast_small:
  fixes w :: "64 word"
  assumes "unat w < 2 ^ 31"
  shows "sint (ucast w :: 32 word) = int (unat w)"
proof -
  have eq: "uint w = int (unat w)" by (rule uint_nat)
  have "unat w < 2147483648" using assms by simp
  then have lt: "uint w < 2147483648" unfolding eq by linarith
  have ge: "- 2147483648 \<le> uint w"
    using uint_nonnegative[of w] by linarith
  have "signed_take_bit 31 (uint w) = uint w"
    unfolding signed_take_bit_int_eq_self_iff using lt ge by simp
  then have "sint (ucast w :: 32 word) = uint w" by (simp add: signed_ucast_eq)
  then show ?thesis unfolding eq .
qed


lemma example_live: "ps_buffer_check example_open = OK"
  by (simp add: ps_buffer_check_def example_defs)

lemma sint_sub_hdr:
  fixes s :: "64 word"
  assumes "unat s < 2 ^ 63"
  shows "sint (s - hdr_size) = int (unat s) - 16"
proof -
  have eq: "uint s = int (unat s)" by (rule uint_nat)
  have "unat s < 9223372036854775808" using assms by simp
  then have lt: "uint s < 9223372036854775808" unfolding eq by linarith
  have ge: "0 \<le> uint s" by (rule uint_nonnegative)
  have "- 9223372036854775808 \<le> uint s" using ge by linarith
  with lt have "signed_take_bit 63 (uint s) = uint s"
    unfolding signed_take_bit_int_eq_self_iff by simp
  then have s: "sint s = uint s" by (simp add: sint_uint)
  have "sint (s - 16) = signed_take_bit 63 (sint s - sint (16 :: 64 word))"
    by (simp add: sint_word_ariths)
  also have "\<dots> = signed_take_bit 63 (uint s - 16)" by (simp add: s)
  also have "\<dots> = uint s - 16"
    unfolding signed_take_bit_int_eq_self_iff using lt ge by (simp; linarith)
  finally show ?thesis unfolding eq hdr_size_def .
qed

lemma store_le_apply:
  "store_le m a k v x = (if a \<le> x \<and> x < a + k then of_nat (v div 256 ^ (x - a)) else m x)"
proof (induction k arbitrary: m a v)
  case 0
  show ?case by auto
next
  case (Suc k)
  show ?case
  proof (cases "x = a")
    case True
    have "store_le (m(a := of_nat v)) (Suc a) k (v div 256) x = (m(a := of_nat v)) x"
      by (subst Suc.IH) (simp add: True)
    then show ?thesis using True by simp
  next
    case False
    have "a < x \<Longrightarrow> v div 256 div 256 ^ (x - Suc a) = v div 256 ^ (x - a)"
    proof -
      assume "a < x"
      then have "x - a = Suc (x - Suc a)" by simp
      then show ?thesis by (simp add: div_mult2_eq)
    qed
    with False show ?thesis by (auto simp: Suc.IH)
  qed
qed

lemma load_le_cong:
  "(\<And>i. i < k \<Longrightarrow> m (a + i) = m' (a + i)) \<Longrightarrow> load_le m a k = load_le m' a k"
proof (induction k arbitrary: a)
  case 0
  show ?case by simp
next
  case (Suc k)
  have "m a = m' a" using Suc.prems[of 0] by simp
  moreover have "load_le m (Suc a) k = load_le m' (Suc a) k"
  proof (rule Suc.IH)
    fix i assume "i < k"
    then show "m (Suc a + i) = m' (Suc a + i)" using Suc.prems[of "Suc i"] by simp
  qed
  ultimately show ?case by simp
qed


lemma load_le_store_le_same: "load_le (store_le m a k v) a k = v mod 256 ^ k"
proof (induction k arbitrary: m a v)
  case 0
  show ?case by simp
next
  case (Suc k)
  have first: "store_le (m(a := of_nat v)) (Suc a) k (v div 256) a = (of_nat v :: byte)"
    by (simp add: store_le_apply)
  have "unat (of_nat v :: byte) = v mod 256"
    by (simp add: unat_of_nat)
  moreover have "load_le (store_le (m(a := of_nat v)) (Suc a) k (v div 256)) (Suc a) k
      = v div 256 mod 256 ^ k"
    by (rule Suc.IH)
  ultimately
  have "load_le (store_le m a (Suc k) v) a (Suc k) = v mod 256 + 256 * (v div 256 mod 256 ^ k)"
    using first by simp
  also have "\<dots> = v mod 256 ^ Suc k"
    by (simp add: mod_mult2_eq)
  finally show ?case .
qed

lemma load_le_store_le_disj:
  "a' + k' \<le> a \<or> a + k \<le> a' \<Longrightarrow> load_le (store_le m a k v) a' k' = load_le m a' k'"
  by (rule load_le_cong) (auto simp: store_le_apply)

lemma load_le_memcpy_to_disj:
  "a' + k' \<le> a \<or> a + k \<le> a' \<Longrightarrow> load_le (memcpy_to m a src k) a' k' = load_le m a' k'"
  by (rule load_le_cong) (auto simp: memcpy_to_def)

lemma load_le_memset0_disj:
  "a' + k' \<le> a \<or> a + k \<le> a' \<Longrightarrow> load_le (memset0 m a k) a' k' = load_le m a' k'"
  by (rule load_le_cong) (auto simp: memset0_def)

lemma header_size_set_header_size [simp]: "header_size (set_header_size m h n) h = n"
proof -
  have "unat n < 256 ^ 8" using unsigned_less[of n] by simp
  then show ?thesis
    by (simp add: header_size_def set_header_size_def load_le_store_le_same del: load_le.simps store_le.simps)
qed

lemma header_flags_set_header_flags [simp]: "header_flags (set_header_flags m h f) h = f"
proof -
  have "unat f < 256 ^ 4" using unsigned_less[of f] by simp
  then show ?thesis
    by (simp add: header_flags_def set_header_flags_def load_le_store_le_same del: load_le.simps store_le.simps)
qed

lemma header_flags_set_header_size [simp]: "header_flags (set_header_size m h n) h = header_flags m h"
  by (simp add: header_flags_def set_header_size_def load_le_store_le_disj del: load_le.simps store_le.simps)

lemma header_size_set_header_flags [simp]: "header_size (set_header_flags m h f) h = header_size m h"
  by (simp add: header_size_def set_header_flags_def load_le_store_le_disj del: load_le.simps store_le.simps)

subsection \<open>Evaluating the example states\<close>

lemma reserve_loop_enough:
  "\<not> sint (free_bytes (state b)) < 0 \<Longrightarrow> reserve_loop b pk len = Returns (OK, b, pk\<lparr>reserved := len\<rparr>)"
  by (subst reserve_loop.simps) simp

lemma example_open_header [simp]:
  "header_size (buffer example_open) 0 = 5" "header_flags (buffer example_open) 0 = 0"
  by (simp_all add: example_open_def)

lemma example_open_fields [simp]:
  "s_size (state example_open) = 64" "s_flags (state example_open) = {PS_BUFFER_READY}"
  "free_bytes (state example_open) = 43" "write_mutex (state example_open)"
  "write_next (state example_open) = 0" "write_pos (state example_open) = 0"
  "read_packets (state example_open) = 0" "written_packets (state example_open) = 0"
  "\<not> write_close_mutex (state example_open)"
  by (simp_all add: example_open_def zero_state_def)

lemma example_packet_fields [simp]:
  "p_flags example_packet = {PS_PACKET_WRITE}" "buffer_pos example_packet = 0"
  "header example_packet = Some 0" "pos example_packet = 5" "reserved example_packet = 5"
  "fake_dma example_packet = []"
  by (simp_all add: example_packet_def)

lemma example_check [simp]: "ps_packet_check example_open example_packet = OK"
  by (simp add: ps_packet_check_def ps_buffer_check_def)

lemma example_reachable:
  "ps_packet_open example_buffer example_closed {PS_PACKET_WRITE}
     = Returns (OK,
         example_buffer\<lparr>state := (state example_buffer)\<lparr>write_mutex := True\<rparr>,
            buffer := set_header_size (set_header_flags (buffer example_buffer) 0 0) 0 0\<rparr>,
         example_packet\<lparr>pos := 0, reserved := 0\<rparr>) \<and>
   ps_packet_seek
       (example_buffer\<lparr>state := (state example_buffer)\<lparr>write_mutex := True\<rparr>,
            buffer := set_header_size (set_header_flags (buffer example_buffer) 0 0) 0 0\<rparr>)
       (example_packet\<lparr>pos := 0, reserved := 0\<rparr>) 5
     = Returns (OK, example_open, example_packet)"
proof
  show "ps_packet_open example_buffer example_closed {PS_PACKET_WRITE}
     = Returns (OK,
         example_buffer\<lparr>state := (state example_buffer)\<lparr>write_mutex := True\<rparr>,
            buffer := set_header_size (set_header_flags (buffer example_buffer) 0 0) 0 0\<rparr>,
         example_packet\<lparr>pos := 0, reserved := 0\<rparr>)"
    by (simp add: ps_packet_open_def ps_packet_openwrite_def ps_buffer_check_def
          example_buffer_def example_closed_def example_packet_def zero_state_def)
  show "ps_packet_seek
       (example_buffer\<lparr>state := (state example_buffer)\<lparr>write_mutex := True\<rparr>,
            buffer := set_header_size (set_header_flags (buffer example_buffer) 0 0) 0 0\<rparr>)
       (example_packet\<lparr>pos := 0, reserved := 0\<rparr>) 5
     = Returns (OK, example_open, example_packet)"
    by (simp add: ps_packet_seek_def seek_reserve_def seek_move_def ps_packet_check_def
          ps_buffer_check_def ps_packet_reserve_def reserve_loop_enough hdr_size_def
          example_buffer_def example_open_def example_packet_def zero_state_def)
qed

subsection \<open>Error codes of \<^verbatim>\<open>ps_packet_setsize\<close>\<close>

lemma ps_packet_reserve_not_ENOBUFS:
  "ps_packet_reserve b pk len \<noteq> Returns (ENOBUFS, b', pk')"
  using ps_packet_reserve_frame(2)[of b pk len ENOBUFS b' pk'] by auto

lemma setsize_reserved_not_ENOBUFS:
  "setsize_reserved n b1 pk1 \<noteq> Returns (ENOBUFS, b', pk')"
  using ps_packet_reserve_not_ENOBUFS
  by (auto simp: setsize_reserved_def Let_def bind_outcome_Returns split: prod.splits if_splits)

lemma setsize_never_ENOBUFS_after_check:
  assumes ok: "ps_packet_check b pk = OK"
    and w: "PS_PACKET_WRITE \<in> p_flags pk" "PS_PACKET_SIZE_SET \<notin> p_flags pk"
    and fit: "\<not> n + hdr_size * 2 > s_size (state b)"
  shows "ps_packet_setsize b pk n \<noteq> Returns (ENOBUFS, b', pk')"
  using assms ps_packet_reserve_not_ENOBUFS setsize_reserved_not_ENOBUFS
  by (auto simp: ps_packet_setsize_def bind_outcome_Returns split: if_splits)

lemma capacity_check_nat:
  fixes n s :: "64 word"
  assumes "unat n + 32 < 2 ^ 64"
  shows "n + hdr_size * 2 > s \<longleftrightarrow> unat n + 2 * unat hdr_size > unat s"
proof -
  have "unat (hdr_size * 2 :: 64 word) = 32" by (simp add: hdr_size_def)
  moreover from this assms have "unat (n + hdr_size * 2) = unat n + 32"
    using unat_add_lem[of n "hdr_size * 2"] by simp
  ultimately show ?thesis by (simp add: word_less_nat_alt hdr_size_def)
qed

lemma header_size_zero_arena [simp]: "header_size (\<lambda>_. 0) h = 0"
  by (simp add: header_size_def load_le_zero del: load_le.simps)

text \<open>The checks at the head of \<^verbatim>\<open>ps_packet_setsize\<close> on a live buffer, the capacity sum
  being the one of \<^verbatim>\<open>size_t\<close>; it is the sum of the natural numbers while
  \<open>n + 32 < 2 ^ 64\<close>.\<close>

lemma setsize_checks:
  "ps_buffer_check b = OK \<Longrightarrow>
     ((PS_PACKET_WRITE \<notin> p_flags pk \<or> PS_PACKET_SIZE_SET \<in> p_flags pk) \<longrightarrow>
        ps_packet_setsize b pk n = Returns (EINVAL, b, pk)) \<and>
     (PS_PACKET_WRITE \<in> p_flags pk \<and> PS_PACKET_SIZE_SET \<notin> p_flags pk \<longrightarrow>
        (n + hdr_size * 2 > s_size (state b) \<longrightarrow>
           ps_packet_setsize b pk n = Returns (ENOBUFS, b, pk)) \<and>
        (\<not> n + hdr_size * 2 > s_size (state b) \<longrightarrow>
           (\<forall>b' pk'. ps_packet_setsize b pk n \<noteq> Returns (ENOBUFS, b', pk'))) \<and>
        (unat n + 32 < 2 ^ 64 \<longrightarrow>
           (n + hdr_size * 2 > s_size (state b)
              \<longleftrightarrow> unat n + 2 * unat hdr_size > unat (s_size (state b)))))"
proof (intro conjI impI allI)
  assume live: "ps_buffer_check b = OK"
  {
    assume "PS_PACKET_WRITE \<notin> p_flags pk \<or> PS_PACKET_SIZE_SET \<in> p_flags pk"
    with live show "ps_packet_setsize b pk n = Returns (EINVAL, b, pk)"
      by (auto simp: ps_packet_setsize_def ps_packet_check_def)
  }
  {
    assume w: "PS_PACKET_WRITE \<in> p_flags pk \<and> PS_PACKET_SIZE_SET \<notin> p_flags pk"
    with live have ok: "ps_packet_check b pk = OK" by (simp add: ps_packet_check_def)
    {
      assume "n + hdr_size * 2 > s_size (state b)"
      with ok w show "ps_packet_setsize b pk n = Returns (ENOBUFS, b, pk)"
        by (simp add: ps_packet_setsize_def)
    }
    {
      fix b' pk'
      assume "\<not> n + hdr_size * 2 > s_size (state b)"
      with ok w show "ps_packet_setsize b pk n \<noteq> Returns (ENOBUFS, b', pk')"
        by (intro setsize_never_ENOBUFS_after_check) simp_all
    }
    {
      assume "unat n + 32 < 2 ^ 64"
      then show "(n + hdr_size * 2 > s_size (state b))
         = (unat n + 2 * unat hdr_size > unat (s_size (state b)))"
        by (rule capacity_check_nat)
    }
  }
qed

subsection \<open>The cases of \<^verbatim>\<open>ps_packet_seek\<close>\<close>

text \<open>What \<^verbatim>\<open>ps_packet_seek\<close> does on a live buffer, with its guard as the source has
  it: one header, in \<^verbatim>\<open>size_t\<close>, with \<^verbatim>\<open>EINVAL\<close>.\<close>

lemma seek_cases:
  "ps_buffer_check b = OK \<Longrightarrow>
     (PS_PACKET_WRITE \<in> p_flags pk \<and> PS_PACKET_SIZE_SET \<notin> p_flags pk \<and>
      PS_PACKET_READ \<notin> p_flags pk \<longrightarrow>
        (p + hdr_size > s_size (state b) \<longrightarrow> ps_packet_seek b pk p = Returns (EINVAL, b, pk)) \<and>
        (unat p + 2 * unat hdr_size \<le> unat (s_size (state b)) \<longrightarrow>
           ps_packet_seek b pk p =
             bind_outcome (ps_packet_reserve b pk p) (\<lambda>(ret, b1, pk1).
               if ret \<noteq> OK then Returns (ret, b1, pk1)
               else Returns (OK,
                      (if p > header_size (buffer b1) (the (header pk))
                       then b1\<lparr>buffer := set_header_size (buffer b1) (the (header pk)) p\<rparr>
                       else b1),
                      pk1\<lparr>pos := p\<rparr>)))) \<and>
     ((PS_PACKET_SIZE_SET \<in> p_flags pk \<or> PS_PACKET_READ \<in> p_flags pk) \<and>
      (PS_PACKET_READ \<in> p_flags pk \<or> PS_PACKET_WRITE \<in> p_flags pk) \<and>
      p > header_size (buffer b) (the (header pk)) \<longrightarrow>
        ps_packet_seek b pk p = Returns (EINVAL, b, pk))"
proof (intro conjI impI)
  assume live: "ps_buffer_check b = OK"
  {
    assume w: "PS_PACKET_WRITE \<in> p_flags pk \<and> PS_PACKET_SIZE_SET \<notin> p_flags pk \<and>
      PS_PACKET_READ \<notin> p_flags pk"
    with live have ok: "ps_packet_check b pk = OK" by (simp add: ps_packet_check_def)
    {
      assume "p + hdr_size > s_size (state b)"
      with ok w show "ps_packet_seek b pk p = Returns (EINVAL, b, pk)"
        by (simp add: ps_packet_seek_def seek_reserve_def)
    }
    {
      assume fit: "unat p + 2 * unat hdr_size \<le> unat (s_size (state b))"
      have "unat (hdr_size :: 64 word) = 16" by (simp add: hdr_size_def)
      with fit have le: "unat p + unat hdr_size \<le> unat (s_size (state b))" by simp
      moreover have "unat (s_size (state b)) < 2 ^ 64"
        using unsigned_less[of "s_size (state b)"] by simp
      ultimately have "unat (p + hdr_size) = unat p + unat hdr_size"
        using unat_add_lem[of p hdr_size] by simp
      with le have fits: "\<not> p + hdr_size > s_size (state b)"
        by (simp add: word_less_nat_alt)
      have keep: "p_flags pk1 = p_flags pk"
        if "ps_packet_reserve b pk p = Returns (e1, b1, pk1)" for e1 b1 pk1
        using ps_packet_reserve_frame(3)[OF that] by (simp split: if_splits)
      show "ps_packet_seek b pk p =
             bind_outcome (ps_packet_reserve b pk p) (\<lambda>(ret, b1, pk1).
               if ret \<noteq> OK then Returns (ret, b1, pk1)
               else Returns (OK,
                      (if p > header_size (buffer b1) (the (header pk))
                       then b1\<lparr>buffer := set_header_size (buffer b1) (the (header pk)) p\<rparr>
                       else b1),
                      pk1\<lparr>pos := p\<rparr>))"
      proof (cases "ps_packet_reserve b pk p")
        case (Returns r)
        obtain e1 b1 pk1 where r: "r = (e1, b1, pk1)" by (cases r)
        from keep[OF Returns[unfolded r]] ok w fits Returns r show ?thesis
          by (simp add: ps_packet_seek_def seek_reserve_def seek_move_def)
      next
        case Blocks
        with ok w fits show ?thesis by (simp add: ps_packet_seek_def seek_reserve_def)
      next
        case Aborts
        with ok w fits show ?thesis by (simp add: ps_packet_seek_def seek_reserve_def)
      qed
    }
  }
  {
    assume "(PS_PACKET_SIZE_SET \<in> p_flags pk \<or> PS_PACKET_READ \<in> p_flags pk) \<and>
      (PS_PACKET_READ \<in> p_flags pk \<or> PS_PACKET_WRITE \<in> p_flags pk) \<and>
      p > header_size (buffer b) (the (header pk))"
    with live show "ps_packet_seek b pk p = Returns (EINVAL, b, pk)"
      by (simp add: ps_packet_seek_def seek_reserve_def ps_packet_check_def)
  }
qed

subsection \<open>Reclaiming does not depend on \<^verbatim>\<open>free_bytes\<close>\<close>

definition add_free :: "c_long \<Rightarrow> ps_buffer_t \<Rightarrow> ps_buffer_t" where
  "add_free x b = b\<lparr>state := (state b)\<lparr>free_bytes := free_bytes (state b) + x\<rparr>\<rparr>"

lemma add_free_fields [simp]:
  "buffer (add_free x b) = buffer b"
  "pending_signals (add_free x b) = pending_signals b"
  "s_flags (state (add_free x b)) = s_flags (state b)"
  "s_size (state (add_free x b)) = s_size (state b)"
  "read_first (state (add_free x b)) = read_first (state b)"
  "read_packets (state (add_free x b)) = read_packets (state b)"
  "free_bytes (state (add_free x b)) = free_bytes (state b) + x"
  by (simp_all add: add_free_def)

lemma add_free_add_free [simp]: "add_free x (add_free y b) = add_free (y + x) b"
  by (simp add: add_free_def add.assoc)

lemma add_free_zero [simp]: "add_free 0 b = b"
  by (simp add: add_free_def)

lemma add_free_commute:
  "add_free x (b\<lparr>state := (state b)\<lparr>read_packets := c\<rparr>\<rparr>)
     = (add_free x b)\<lparr>state := (state (add_free x b))\<lparr>read_packets := c\<rparr>\<rparr>"
  "add_free x (b\<lparr>state := (state b)\<lparr>write_mutex := w\<rparr>\<rparr>)
     = (add_free x b)\<lparr>state := (state (add_free x b))\<lparr>write_mutex := w\<rparr>\<rparr>"
  by (simp_all add: add_free_def)

lemma reclaim_read_first_add_free:
  "reclaim_read_first (add_free x b) = add_free x (reclaim_read_first b)"
  by (simp add: reclaim_read_first_def add_free_def Let_def add.assoc add.commute add.left_commute)

lemma reserve_reclaim_add_free:
  "reserve_reclaim b = r \<Longrightarrow> reserve_reclaim (add_free x b) = (fst r, add_free x (snd r))"
proof (induction b r rule: reserve_reclaim_cases)
  case (cancelled b)
  then show ?case
    by (subst reserve_reclaim.simps)
       (simp add: Let_def reclaim_read_first_add_free add_free_commute)
next
  case (last b)
  then show ?case
    by (subst reserve_reclaim.simps)
       (simp add: Let_def reclaim_read_first_add_free sem_trywait_def)
next
  case (more b c r)
  then show ?case
    by (subst reserve_reclaim.simps)
       (simp add: Let_def reclaim_read_first_add_free sem_trywait_def add_free_commute)
qed

lemma reserve_reclaim_drains:
  "reserve_reclaim b = r \<Longrightarrow> fst r = OK \<Longrightarrow> read_packets (state (snd r)) = 0"
proof (induction b r rule: reserve_reclaim_cases)
  case (cancelled b)
  then show ?case by simp
next
  case (last b)
  then show ?case by simp
next
  case (more b c r)
  then show ?case by simp
qed


lemma reserve_loop_try:
  assumes "PS_PACKET_TRY \<in> p_flags pk"
  shows "reserve_loop b pk len =
     (if \<not> sint (free_bytes (state b)) < 0 then Returns (OK, b, pk\<lparr>reserved := len\<rparr>)
      else if read_packets (state b) = 0
        then Returns (EBUSY, add_free (len - reserved pk) b, pk)
      else (case reserve_reclaim
                  (b\<lparr>state := (state b)\<lparr>read_packets := read_packets (state b) - 1\<rparr>\<rparr>) of
              (OK, b2) \<Rightarrow> reserve_loop b2 pk len
            | (e2, b2) \<Rightarrow> Returns (e2, b2, pk)))"
  using assms
  by (subst reserve_loop.simps)
     (simp add: reserve_wait_def sem_trywait_def add_free_def)

lemma add_free_cancel: "add_free d (add_free (- d) b) = b"
  by simp

subsection \<open>Small counters and byte sequences\<close>






subsection \<open>What the write path leaves unchanged\<close>

text \<open>Seeking, writing and the write-back of the fake-DMA entries leave the indices of
  the committed region, the reader side and the handle's header alone.\<close>

definition write_frame :: "ps_buffer_t \<Rightarrow> ps_buffer_t \<Rightarrow> bool" where
  "write_frame b b' \<longleftrightarrow>
     stats b' = stats b \<and> shmid b' = shmid b \<and>
     s_flags (state b') = s_flags (state b) \<and> s_size (state b') = s_size (state b) \<and>
     read_pos (state b') = read_pos (state b) \<and> write_pos (state b') = write_pos (state b) \<and>
     read_next (state b') = read_next (state b) \<and>
     read_mutex (state b') = read_mutex (state b) \<and>
     read_close_mutex (state b') = read_close_mutex (state b) \<and>
     write_close_mutex (state b') = write_close_mutex (state b) \<and>
     written_packets (state b') = written_packets (state b)"

definition handle_frame :: "ps_packet_t \<Rightarrow> ps_packet_t \<Rightarrow> bool" where
  "handle_frame pk pk' \<longleftrightarrow> buffer_pos pk' = buffer_pos pk \<and> header pk' = header pk"

lemma write_frame_refl [simp]: "write_frame b b"
  by (simp add: write_frame_def)

lemma write_frame_trans: "write_frame a b \<Longrightarrow> write_frame b c \<Longrightarrow> write_frame a c"
  by (simp add: write_frame_def)

lemma handle_frame_refl [simp]: "handle_frame pk pk"
  by (simp add: handle_frame_def)

lemma handle_frame_trans: "handle_frame a b \<Longrightarrow> handle_frame b c \<Longrightarrow> handle_frame a c"
  by (simp add: handle_frame_def)

lemma reserve_frame_write_frame: "reserve_frame b b' \<Longrightarrow> write_frame b b'"
  by (simp add: reserve_frame_def write_frame_def)

lemma ps_packet_reserve_frames:
  assumes "ps_packet_reserve b pk len = Returns (e, b', pk')"
  shows "write_frame b b' \<and> handle_frame pk pk' \<and> buffer b' = buffer b \<and>
    fake_dma pk' = fake_dma pk \<and> p_flags pk' = p_flags pk \<and> pos pk' = pos pk"
  using ps_packet_reserve_frame[OF assms]
  by (auto simp: reserve_frame_write_frame handle_frame_def reserve_frame_def split: if_splits)

lemma write_frame_buffer [simp]:
  "write_frame b (b'\<lparr>buffer := m\<rparr>) = write_frame b b'"
  by (simp add: write_frame_def)

lemma handle_frame_pos [simp]:
  "handle_frame pk (pk'\<lparr>pos := p\<rparr>) = handle_frame pk pk'"
  by (simp add: handle_frame_def)




lemma write_bounds_frames:
  assumes "write_bounds b pk n = Returns (e, b', pk')"
  shows "write_frame b b' \<and> handle_frame pk pk' \<and> buffer b' = buffer b \<and>
    fake_dma pk' = fake_dma pk \<and> p_flags pk' = p_flags pk \<and> pos pk' = pos pk"
  using assms ps_packet_reserve_frames[of b pk "pos pk + n" e b' pk']
  by (auto simp: write_bounds_def split: if_splits)




subsection \<open>What \<^verbatim>\<open>ps_packet_setsize\<close> and the first phase of \<^verbatim>\<open>ps_packet_closewrite\<close> leave unchanged\<close>







subsection \<open>The split copies of \<^verbatim>\<open>ps_packet_write\<close> and \<^verbatim>\<open>ps_packet_read\<close>\<close>

text \<open>In an arena below \<open>2 ^ 63\<close> bytes the sums of the two functions do not wrap in
  \<^verbatim>\<open>size_t\<close>. Byte \<open>i\<close> of a run that starts at \<open>offs\<close> then lives at
  \<open>(offs + i) mod size\<close>, for the writer and for the reader, and the header of the packet
  is not among these addresses.\<close>

lemma split_words:
  fixes offs n sz :: size_t
  assumes o: "unat offs < unat sz" and n: "unat n \<le> unat sz" and s: "unat sz < 2 ^ 63"
  shows "(offs + n > sz) = (unat offs + unat n > unat sz)"
    and "unat offs + unat n > unat sz \<Longrightarrow> unat (sz - offs) = unat sz - unat offs"
    and "unat offs + unat n > unat sz \<Longrightarrow>
           unat (n - (sz - offs)) = unat offs + unat n - unat sz"
    and "unat offs + unat n > unat sz \<Longrightarrow>
           unat (n - (n - (sz - offs))) = unat sz - unat offs"
proof -
  have "unat offs + unat n < 2 * 2 ^ 63" using o n s by linarith
  then have lt: "unat offs + unat n < 2 ^ LENGTH(64)" by simp
  then have sum: "unat (offs + n) = unat offs + unat n"
    using unat_add_lem[of offs n] by simp
  show "(offs + n > sz) = (unat offs + unat n > unat sz)"
    by (simp add: word_less_nat_alt sum)
  have le: "offs \<le> sz" using o by (simp add: word_le_nat_alt)
  then have d: "unat (sz - offs) = unat sz - unat offs" by (rule unat_sub)
  {
    assume w: "unat offs + unat n > unat sz"
    show "unat (sz - offs) = unat sz - unat offs" by (rule d)
    from w d have le2: "sz - offs \<le> n" by (simp add: word_le_nat_alt)
    then have r: "unat (n - (sz - offs)) = unat n - (unat sz - unat offs)"
      using unat_sub[OF le2] d by simp
    with o show "unat (n - (sz - offs)) = unat offs + unat n - unat sz" by linarith
    have "n - (n - (sz - offs)) = sz - offs" by simp
    with d show "unat (n - (n - (sz - offs))) = unat sz - unat offs" by simp
  }
qed

lemma wrap_address:
  assumes "(a :: nat) < s" "i < k" "k \<le> s"
  shows "(a + i) mod s = (if a + i < s then a + i else a + i - s)"
proof (cases "a + i < s")
  case True
  then show ?thesis by simp
next
  case False
  then have ge: "s \<le> a + i" by simp
  have "a + i - s < s" using assms by linarith
  with ge show ?thesis using False by (simp add: le_mod_geq)
qed

lemma read_split_nth:
  assumes o: "unat offs < unat sz" and n: "unat n \<le> unat sz" and s: "unat sz < 2 ^ 63"
  shows "read_split m sz offs n = map (\<lambda>i. m ((unat offs + i) mod unat sz)) [0..<unat n]"
proof (cases "unat offs + unat n > unat sz")
  case False
  then have "\<not> offs + n > sz" using split_words(1)[OF o n s] by simp
  then have "read_split m sz offs n = map (\<lambda>i. m (unat offs + i)) [0..<unat n]"
    by (simp add: read_split_def memcpy_from_def)
  also have "\<dots> = map (\<lambda>i. m ((unat offs + i) mod unat sz)) [0..<unat n]"
    using False by (intro map_cong refl) simp
  finally show ?thesis .
next
  case True
  note w = split_words[OF o n s]
  from True have c: "offs + n > sz" using w(1) by simp
  let ?a = "unat sz - unat offs"
  let ?r = "unat offs + unat n - unat sz"
  have rs: "read_split m sz offs n
      = map (\<lambda>i. m (unat offs + i)) [0..<?a] @ map m [0..<?r]"
    using c w(2)[OF True] w(3)[OF True]
    by (simp add: read_split_def memcpy_from_def Let_def)
  show ?thesis
  proof (rule nth_equalityI)
    show "length (read_split m sz offs n)
        = length (map (\<lambda>i. m ((unat offs + i) mod unat sz)) [0..<unat n])"
      using True o by (simp add: rs)
  next
    fix i assume "i < length (read_split m sz offs n)"
    then have i: "i < unat n" using True o by (simp add: rs)
    have addr: "(unat offs + i) mod unat sz
        = (if unat offs + i < unat sz then unat offs + i else unat offs + i - unat sz)"
      by (rule wrap_address[OF o i n])
    show "read_split m sz offs n ! i
        = map (\<lambda>i. m ((unat offs + i) mod unat sz)) [0..<unat n] ! i"
    proof (cases "i < ?a")
      case True
      then have "read_split m sz offs n ! i = m (unat offs + i)"
        by (simp add: rs nth_append)
      with True i addr show ?thesis by simp
    next
      case False
      then have "i - ?a < ?r" using i o by linarith
      with False have "read_split m sz offs n ! i = m (i - ?a)"
        by (simp add: rs nth_append)
      moreover have "i - ?a = unat offs + i - unat sz" using False o by linarith
      moreover have "\<not> unat offs + i < unat sz" using False o by linarith
      ultimately show ?thesis using i addr by simp
    qed
  qed
qed

lemma write_split_nth:
  assumes o: "unat offs < unat sz" and n: "unat n \<le> unat sz" and s: "unat sz < 2 ^ 63"
    and len: "length src = unat n" and i: "i < unat n"
  shows "write_split m sz offs src n ((unat offs + i) mod unat sz) = src ! i"
proof (cases "unat offs + unat n > unat sz")
  case False
  then have "\<not> offs + n > sz" using split_words(1)[OF o n s] by simp
  moreover from False i have "(unat offs + i) mod unat sz = unat offs + i" by simp
  ultimately show ?thesis using i by (simp add: write_split_def memcpy_to_def)
next
  case True
  note w = split_words[OF o n s]
  from True have c: "offs + n > sz" using w(1) by simp
  let ?a = "unat sz - unat offs"
  let ?r = "unat offs + unat n - unat sz"
  have ws: "write_split m sz offs src n
      = memcpy_to (memcpy_to m (unat offs) src ?a) 0 (drop ?a src) ?r"
    using c w(2)[OF True] w(3)[OF True] w(4)[OF True]
    by (simp add: write_split_def Let_def)
  have addr: "(unat offs + i) mod unat sz
      = (if unat offs + i < unat sz then unat offs + i else unat offs + i - unat sz)"
    by (rule wrap_address[OF o i n])
  show ?thesis
  proof (cases "unat offs + i < unat sz")
    case True
    have "\<not> unat offs + i < ?r" using n by linarith
    with True addr show ?thesis by (simp add: ws memcpy_to_def)
  next
    case False
    then have x: "unat offs + i - unat sz < ?r" using i by linarith
    have "?a \<le> length src" using len True by linarith
    then have "drop ?a src ! (unat offs + i - unat sz) = src ! (?a + (unat offs + i - unat sz))"
      by (rule nth_drop)
    moreover have "?a + (unat offs + i - unat sz) = i" using False o by linarith
    ultimately show ?thesis using False addr x by (simp add: ws memcpy_to_def)
  qed
qed

lemma set_header_size_apply:
  "x < unat h + 8 \<or> unat h + 16 \<le> x \<Longrightarrow> set_header_size m h v x = m x"
  by (auto simp: set_header_size_def store_le_apply)


lemma payload_address:
  fixes bp p sz :: size_t
  assumes bp: "unat bp + 16 \<le> unat sz" and fit: "unat p + k + 32 \<le> unat sz"
    and s: "unat sz < 2 ^ 63"
  shows "unat ((bp + hdr_size + p) mod sz) = (unat bp + 16 + unat p) mod unat sz"
    and "unat ((bp + hdr_size + p) mod sz) < unat sz"
proof -
  have h: "unat (hdr_size :: size_t) = 16" by (simp add: hdr_size_def)
  have "unat bp + 16 < 2 ^ 63" using bp s by linarith
  then have "unat bp + unat (hdr_size :: size_t) < 2 ^ LENGTH(64)" using h by simp
  then have a: "unat (bp + hdr_size) = unat bp + 16"
    using unat_add_lem[of bp hdr_size] h by simp
  have "unat bp + 16 + unat p < 2 * 2 ^ 63" using bp fit s by linarith
  then have "unat (bp + hdr_size) + unat p < 2 ^ LENGTH(64)" using a by simp
  then have b: "unat (bp + hdr_size + p) = unat bp + 16 + unat p"
    using unat_add_lem[of "bp + hdr_size" p] a by simp
  show "unat ((bp + hdr_size + p) mod sz) = (unat bp + 16 + unat p) mod unat sz"
    by (simp add: unat_mod b)
  have "0 < unat sz" using bp by linarith
  then show "unat ((bp + hdr_size + p) mod sz) < unat sz"
    by (simp add: unat_mod)
qed

lemma payload_not_header:
  assumes bp: "(a :: nat) + 16 \<le> s" and fit: "t + 32 \<le> s"
  shows "(a + 16 + t) mod s < a \<or> a + 16 \<le> (a + 16 + t) mod s"
proof (cases "a + 16 + t < s")
  case True
  then show ?thesis by simp
next
  case False
  then have ge: "s \<le> a + 16 + t" by simp
  have lt: "a + 16 + t - s < s" using bp fit by linarith
  from ge lt have "(a + 16 + t) mod s = a + 16 + t - s" by (simp add: le_mod_geq)
  moreover have "a + 16 + t - s < a" using bp fit ge by linarith
  ultimately show ?thesis by simp
qed

lemma write_copy_read_back:
  assumes len: "length src = unat n"
    and bp: "unat (buffer_pos pk1) + 16 \<le> unat (s_size (state b1))"
    and fit: "unat (pos pk1) + unat n + 32 \<le> unat (s_size (state b1))"
    and s: "unat (s_size (state b1)) < 2 ^ 63"
    and wc: "write_copy (buffer_pos pk1) b1 pk1 src n = (b', pk')"
  shows "read_split (buffer b') (s_size (state b'))
           ((buffer_pos pk1 + hdr_size + pos pk1) mod s_size (state b')) n = src"
    and "\<not> pos pk1 + n > header_size (buffer b') (buffer_pos pk1)"
    and "pk' = pk1\<lparr>pos := pos pk1 + n\<rparr>" and "state b' = state b1"
proof -
  let ?sz = "s_size (state b1)"
  let ?offs = "(buffer_pos pk1 + hdr_size + pos pk1) mod ?sz"
  let ?m1 = "write_split (buffer b1) ?sz ?offs src n"
  let ?p = "pos pk1 + n"
  let ?m2 = "if ?p > header_size ?m1 (buffer_pos pk1)
             then set_header_size ?m1 (buffer_pos pk1) ?p else ?m1"
  from wc have b': "b' = b1\<lparr>buffer := ?m2\<rparr>" and pk': "pk' = pk1\<lparr>pos := ?p\<rparr>"
    by (simp_all add: write_copy_def Let_def)
  show "pk' = pk1\<lparr>pos := pos pk1 + n\<rparr>" by (rule pk')
  show "state b' = state b1" by (simp add: b')
  show "\<not> pos pk1 + n > header_size (buffer b') (buffer_pos pk1)"
    by (simp add: b')
  note pa = payload_address[OF bp fit s]
  have n: "unat n \<le> unat ?sz" using fit by linarith
  have rd: "read_split ?m2 ?sz ?offs n
      = map (\<lambda>i. ?m2 ((unat ?offs + i) mod unat ?sz)) [0..<unat n]"
    by (rule read_split_nth[OF pa(2) n s])
  have "map (\<lambda>i. ?m2 ((unat ?offs + i) mod unat ?sz)) [0..<unat n] = src"
  proof (rule nth_equalityI)
    show "length (map (\<lambda>i. ?m2 ((unat ?offs + i) mod unat ?sz)) [0..<unat n]) = length src"
      by (simp add: len)
  next
    fix i assume "i < length (map (\<lambda>i. ?m2 ((unat ?offs + i) mod unat ?sz)) [0..<unat n])"
    then have i: "i < unat n" by simp
    let ?x = "(unat ?offs + i) mod unat ?sz"
    have w1: "?m1 ?x = src ! i" by (rule write_split_nth[OF pa(2) n s len i])
    have "?x = (unat (buffer_pos pk1) + 16 + (unat (pos pk1) + i)) mod unat ?sz"
      unfolding pa(1) by (simp add: mod_add_left_eq add.assoc)
    moreover have "unat (pos pk1) + i + 32 \<le> unat ?sz" using fit i by linarith
    ultimately have "?x < unat (buffer_pos pk1) \<or> unat (buffer_pos pk1) + 16 \<le> ?x"
      using payload_not_header[OF bp, of "unat (pos pk1) + i"] by simp
    then have "set_header_size ?m1 (buffer_pos pk1) ?p ?x = ?m1 ?x"
      by (intro set_header_size_apply) linarith
    with w1 have "?m2 ?x = src ! i" by simp
    with i show "map (\<lambda>i. ?m2 ((unat ?offs + i) mod unat ?sz)) [0..<unat n] ! i = src ! i"
      by simp
  qed
  with rd show "read_split (buffer b') (s_size (state b'))
           ((buffer_pos pk1 + hdr_size + pos pk1) mod s_size (state b')) n = src"
    by (simp add: b')
qed

subsection \<open>\<^verbatim>\<open>move_pos\<close> in arenas of at most \<open>2 ^ 31\<close> bytes\<close>


lemma scast_ucast_small:
  fixes w :: "64 word"
  assumes "unat w < 2 ^ 31"
  shows "(scast (ucast w :: 32 word) :: 64 word) = w"
proof -
  have "sint (ucast w :: 32 word) = int (unat w)" by (rule sint_ucast_small[OF assms])
  then have "(scast (ucast w :: 32 word) :: 64 word) = of_int (int (unat w))"
    by (simp add: scast_eq)
  then show ?thesis by simp
qed

lemma move_pos_small_arena:
  assumes sz: "0 < unat sz" "unat sz \<le> 2 ^ 31"
  shows "int_to_size_t (move_pos p sz n) = (let q = (hdr_size + p + n) mod sz
                                           in if q + hdr_size > sz then 0 else q)"
proof -
  let ?p1 = "(hdr_size + p + n) mod sz"
  let ?p2 = "if ?p1 + hdr_size > sz then 0 else ?p1"
  have "unat ?p1 < unat sz" using sz(1) by (simp add: unat_mod)
  then have "unat ?p2 < 2 ^ 31" using sz(2) by simp
  then have "(scast (ucast ?p2 :: 32 word) :: 64 word) = ?p2" by (rule scast_ucast_small)
  then show ?thesis
    by (simp add: int_to_size_t_def move_pos_def Let_def)
qed


lemma inlined_advances_small_arena:
  assumes "0 < unat sz" "unat sz \<le> 2 ^ 31"
  shows "fst (next_header_slot p n sz) = int_to_size_t (move_pos p sz n)"
    and "s_size (state b) = sz \<Longrightarrow>
         read_first (state (reclaim_read_first b))
           = int_to_size_t (move_pos (read_first (state b)) sz
               (header_size (buffer b) (read_first (state b))))"
  unfolding move_pos_small_arena[OF assms]
  by (auto simp: next_header_slot_def reclaim_read_first_def Let_def add.commute add.left_commute)

subsection \<open>Packets in the arena, in the words of the specification\<close>







definition drain_frame :: "ps_buffer_t \<Rightarrow> ps_buffer_t \<Rightarrow> bool" where
  "drain_frame b b' \<longleftrightarrow>
     stats b' = stats b \<and> shmid b' = shmid b \<and> pending_signals b' = pending_signals b \<and>
     s_flags (state b') = s_flags (state b) \<and> s_size (state b') = s_size (state b) \<and>
     write_pos (state b') = write_pos (state b) \<and> write_next (state b') = write_next (state b) \<and>
     read_first (state b') = read_first (state b) \<and> free_bytes (state b') = free_bytes (state b) \<and>
     read_mutex (state b') = read_mutex (state b) \<and>
     write_mutex (state b') = write_mutex (state b) \<and>
     read_close_mutex (state b') = read_close_mutex (state b) \<and>
     write_close_mutex (state b') = write_close_mutex (state b)"


















lemma drain_frame_refl [simp]: "drain_frame b b"
  by (simp add: drain_frame_def)



lemma example_ring_fields [simp]:
  "s_size (state example_ring) = 128" "write_pos (state example_ring) = 64"
  "written_packets (state example_ring) = 0" "\<not> write_close_mutex (state example_ring)"
  "state example_ring_pending = state example_ring"
  "buffer_pos example_ring_first = 64" "header example_ring_first = Some 64"
  "buffer_pos example_ring_second = 88" "header example_ring_second = Some 88"
  by (simp_all add: example_ring_def example_ring_pending_def example_ring_first_def
        example_ring_second_def zero_state_def)




lemma example_ring_committed_fields [simp]:
  "s_size (state example_ring_committed) = 128" "read_next (state example_ring_committed) = 64"
  "read_pos (state example_ring_committed) = 64"
  "written_packets (state example_ring_committed) = 2"
  "read_packets (state example_ring_committed) = 0"
  "\<not> read_mutex (state example_ring_committed)"
  "\<not> read_close_mutex (state example_ring_committed)"
  "buffer example_ring_held = buffer example_ring_committed"
  "s_size (state example_ring_held) = 128" "read_next (state example_ring_held) = 64"
  "read_pos (state example_ring_held) = 40"
  "written_packets (state example_ring_held) = 2"
  "read_packets (state example_ring_held) = 0"
  "\<not> read_mutex (state example_ring_held)"
  "\<not> read_close_mutex (state example_ring_held)"
  by (simp_all add: example_ring_committed_def example_ring_held_def zero_state_def)

section \<open>The claims\<close>

text \<open>The packet operations return \<^verbatim>\<open>EINVAL\<close> or \<^verbatim>\<open>EINTR\<close> from their first line
  when the buffer is not initialised or has been cancelled (the macro
  \<^verbatim>\<open>__PS_PACKET\<close>); after a cancellation the caller has to give the buffer up. The
  theorems about what an operation does are stated for a buffer that passes
  \<open>ps_buffer_check\<close>.\<close>

text \<open>C8. For an open handle on a live buffer \<^verbatim>\<open>ps_packet_tell\<close> returns the cursor
  \<^verbatim>\<open>packet->pos\<close>, converted to \<^verbatim>\<open>int\<close>, as its return value, and what \<^verbatim>\<open>*pos\<close>
  holds is what it held before the call. A cursor below \<open>2 ^ 31\<close> is returned as it
  is.\<close>

theorem tell_returns_cursor:
  "ps_packet_check b pk = OK \<Longrightarrow>
     ps_packet_tell b pk out = (ucast (pos pk), out) \<and>
     (unat (pos pk) < 2 ^ 31 \<longrightarrow> sint (fst (ps_packet_tell b pk out)) = int (unat (pos pk)))"
  by (simp add: ps_packet_tell_def sint_ucast_small)

theorem tell_returns_cursor_witness:
  "ps_packet_check example_open example_packet = OK \<and>
   ps_packet_tell example_open example_packet 1234 = (5, 1234) \<and>
   sint (fst (ps_packet_tell example_open example_packet 1234)) = 5"
proof -
  have ok: "ps_packet_check example_open example_packet = OK"
    using example_live by (simp add: ps_packet_check_def example_packet_def)
  have c: "pos example_packet = 5" by (simp add: example_packet_def)
  from tell_returns_cursor[OF ok, of 1234] ok show ?thesis
    by (simp add: c)
qed

text \<open>C9. \<^verbatim>\<open>ps_packet_cancel\<close> returns \<^verbatim>\<open>EINVAL\<close> and changes nothing unless the packet
  is a write packet whose size is not set. For such a packet it adds
  \<^verbatim>\<open>packet->reserved\<close> to \<^verbatim>\<open>free_bytes\<close>, zeroes the header (flags and size), marks
  every fake-DMA entry free and leaves the five position indices as they were.\<close>

theorem cancel_refunds_and_clears:
  "ps_buffer_check b = OK \<Longrightarrow>
     (\<not> (PS_PACKET_WRITE \<in> p_flags pk \<and> PS_PACKET_SIZE_SET \<notin> p_flags pk) \<longrightarrow>
        ps_packet_cancel b pk = (EINVAL, b, pk)) \<and>
     (PS_PACKET_WRITE \<in> p_flags pk \<and> PS_PACKET_SIZE_SET \<notin> p_flags pk \<longrightarrow>
        (\<exists>b' pk'. ps_packet_cancel b pk = (OK, b', pk') \<and>
           free_bytes (state b') = free_bytes (state b) + reserved pk \<and>
           header_flags (buffer b') (the (header pk)) = 0 \<and>
           header_size (buffer b') (the (header pk)) = 0 \<and>
           length (fake_dma pk') = length (fake_dma pk) \<and>
           (\<forall>d \<in> set (fake_dma pk'). dma_free d) \<and>
           read_pos (state b') = read_pos (state b) \<and>
           write_pos (state b') = write_pos (state b) \<and>
           read_next (state b') = read_next (state b) \<and>
           write_next (state b') = write_next (state b) \<and>
           read_first (state b') = read_first (state b)))"
  by (auto simp: ps_packet_cancel_def ps_packet_check_def header_memset0
        ps_packet_fakedma_freeall_def ps_packet_fakedma_free_def)

theorem cancel_refunds_and_clears_witness:
  "ps_buffer_check example_open = OK \<and>
   ps_packet_cancel example_open (example_packet\<lparr>p_flags := {PS_PACKET_READ}\<rparr>)
     = (EINVAL, example_open, example_packet\<lparr>p_flags := {PS_PACKET_READ}\<rparr>) \<and>
   (\<exists>b' pk'. ps_packet_cancel example_open example_dma_packet = (OK, b', pk') \<and>
      free_bytes (state b') = 48 \<and> header_size (buffer b') 0 = 0 \<and>
      map dma_free (fake_dma pk') = [True])"
proof -
  have ok: "ps_buffer_check example_open = OK" by (rule example_live)
  have 1: "ps_packet_cancel example_open (example_packet\<lparr>p_flags := {PS_PACKET_READ}\<rparr>)
     = (EINVAL, example_open, example_packet\<lparr>p_flags := {PS_PACKET_READ}\<rparr>)"
    using cancel_refunds_and_clears[OF ok, of "example_packet\<lparr>p_flags := {PS_PACKET_READ}\<rparr>"]
    by simp
  have w: "PS_PACKET_WRITE \<in> p_flags example_dma_packet \<and>
           PS_PACKET_SIZE_SET \<notin> p_flags example_dma_packet"
    by (simp add: example_defs)
  from cancel_refunds_and_clears[OF ok, THEN conjunct2, rule_format, OF w]
  obtain b' pk' where c: "ps_packet_cancel example_open example_dma_packet = (OK, b', pk')"
    and fb: "free_bytes (state b') = free_bytes (state example_open) + reserved example_dma_packet"
    and hz: "header_size (buffer b') (the (header example_dma_packet)) = 0"
    and len: "length (fake_dma pk') = length (fake_dma example_dma_packet)"
    and fr: "\<forall>d \<in> set (fake_dma pk'). dma_free d"
    by blast
  have "free_bytes (state b') = 48" using fb by (simp add: example_defs)
  moreover have "header_size (buffer b') 0 = 0" using hz by (simp add: example_defs)
  moreover have "length (fake_dma pk') = 1" using len by (simp add: example_defs)
  then have "map dma_free (fake_dma pk') = [True]"
    using fr by (cases "fake_dma pk'") auto
  ultimately show ?thesis using ok 1 c by simp
qed

text \<open>C10. A successful \<^verbatim>\<open>ps_buffer_init\<close> of a buffer that is not shared, from
  attributes without \<^verbatim>\<open>PS_BUFFER_READY\<close>: the five position indices are 0,
  \<^verbatim>\<open>free_bytes\<close> is the attribute size less one header (as a \<^verbatim>\<open>long\<close>, for every
  size an object can have), both semaphores count 0, the mutexes are unlocked and
  \<^verbatim>\<open>PS_BUFFER_READY\<close> is set.\<close>

theorem init_state:
  "PS_BUFFER_PSHARED \<notin> attr_flags attr \<Longrightarrow> PS_BUFFER_READY \<notin> attr_flags attr \<Longrightarrow>
   ps_buffer_init attr env = (OK, Some b) \<Longrightarrow>
     read_pos (state b) = 0 \<and> write_pos (state b) = 0 \<and> read_next (state b) = 0 \<and>
     write_next (state b) = 0 \<and> read_first (state b) = 0 \<and>
     s_size (state b) = attr_size attr \<and>
     free_bytes (state b) = attr_size attr - hdr_size \<and>
     (unat (attr_size attr) < 2 ^ 63 \<longrightarrow>
        sint (free_bytes (state b)) = int (unat (attr_size attr)) - 16) \<and>
     read_packets (state b) = 0 \<and> written_packets (state b) = 0 \<and>
     s_flags (state b) = insert PS_BUFFER_READY (attr_flags attr) \<and>
     \<not> read_mutex (state b) \<and> \<not> write_mutex (state b) \<and>
     \<not> read_close_mutex (state b) \<and> \<not> write_close_mutex (state b)"
  by (auto simp: ps_buffer_init_def init_allocated_def zero_state_def Let_def sint_sub_hdr
           split: option.splits if_splits)

theorem init_state_witness:
  "PS_BUFFER_PSHARED \<notin> attr_flags example_attr \<and> PS_BUFFER_READY \<notin> attr_flags example_attr \<and>
   ps_buffer_init example_attr example_env = (OK, Some example_buffer) \<and>
   free_bytes (state example_buffer) = 48 \<and> sint (free_bytes (state example_buffer)) = 48 \<and>
   read_packets (state example_buffer) = 0 \<and> PS_BUFFER_READY \<in> s_flags (state example_buffer)"
proof -
  have f: "PS_BUFFER_PSHARED \<notin> attr_flags example_attr" "PS_BUFFER_READY \<notin> attr_flags example_attr"
    by (simp_all add: example_defs)
  have i: "ps_buffer_init example_attr example_env = (OK, Some example_buffer)"
    by (simp add: ps_buffer_init_def init_allocated_def example_defs memset0_def hdr_size_def)
  from init_state[OF f i] f i show ?thesis
    by (simp add: example_attr_def hdr_size_def)
qed

text \<open>C4. The capacity check of \<^verbatim>\<open>ps_packet_setsize\<close> adds in \<^verbatim>\<open>size_t\<close>: on a live arena
  of 64 bytes, for a write packet whose size is not set, the size \<open>2 ^ 64 - 16\<close> passes
  it, although with two headers it exceeds the arena by far. The call returns 0, the
  size is frozen and \<open>2 ^ 64 - 16\<close> bytes count as reserved, where the claim has
  \<^verbatim>\<open>ENOBUFS\<close>; the size 33, whose sum does not wrap, is refused.\<close>

theorem setsize_capacity_overflow:
  "ps_buffer_check example_open = OK \<and>
   PS_PACKET_WRITE \<in> p_flags example_packet \<and> PS_PACKET_SIZE_SET \<notin> p_flags example_packet \<and>
   unat (s_size (state example_open))
     < unat (18446744073709551600 :: size_t) + 2 * unat (hdr_size :: size_t) \<and>
   (\<exists>b' pk'. ps_packet_setsize example_open example_packet 18446744073709551600
        = Returns (OK, b', pk') \<and>
      PS_PACKET_SIZE_SET \<in> p_flags pk' \<and> reserved pk' = 18446744073709551600 \<and>
      free_bytes (state b') = 48 \<and> \<not> write_mutex (state b')) \<and>
   ps_packet_setsize example_open example_packet 33
     = Returns (ENOBUFS, example_open, example_packet)"
  by (simp add: ps_packet_setsize_def setsize_reserved_def setsize_finish_def
        next_header_slot_def ps_packet_reserve_def reserve_loop_enough hdr_size_def
        ps_packet_check_def ps_buffer_check_def ps_packet_fakedma_cut_def
        example_open_def example_packet_def zero_state_def)

theorem setsize_capacity_overflow_witness:
  "\<exists>b' pk'. ps_packet_setsize example_open example_packet 18446744073709551600
      = Returns (OK, b', pk') \<and> PS_PACKET_SIZE_SET \<in> p_flags pk'"
  using setsize_capacity_overflow by blast

text \<open>C6. The guard of \<^verbatim>\<open>ps_packet_seek\<close> is not the one of \<^verbatim>\<open>ps_packet_write\<close> and
  \<^verbatim>\<open>ps_packet_setsize\<close>. On an arena of 64 bytes, for a write packet whose size is not
  set: a seek to 48 returns 0 and grows the header's size to 48, a size that
  \<^verbatim>\<open>ps_packet_write\<close> and \<^verbatim>\<open>ps_packet_setsize\<close> refuse with \<^verbatim>\<open>ENOBUFS\<close>, and the packet
  can then not be committed, \<^verbatim>\<open>ps_packet_close\<close> returning \<^verbatim>\<open>ENOBUFS\<close>; a seek to 49
  returns \<^verbatim>\<open>EINVAL\<close>, not \<^verbatim>\<open>ENOBUFS\<close>; and a seek to \<open>2 ^ 64 - 1\<close>, whose sum with one
  header wraps, returns 0.\<close>

theorem seek_guard_diverges:
  "(\<exists>b1 pk1. ps_packet_seek example_open example_packet 48 = Returns (OK, b1, pk1) \<and>
      pos pk1 = 48 \<and> header_size (buffer b1) 0 = 48 \<and>
      (\<exists>b2 pk2. ps_packet_close b1 pk1 = Returns (ENOBUFS, b2, pk2))) \<and>
   ps_packet_write example_open example_packet (replicate 43 0) 43
     = Returns (ENOBUFS, example_open, example_packet) \<and>
   ps_packet_setsize example_open example_packet 48
     = Returns (ENOBUFS, example_open, example_packet) \<and>
   ps_packet_seek example_open example_packet 49
     = Returns (EINVAL, example_open, example_packet) \<and>
   (\<exists>b' pk'. ps_packet_seek example_open example_packet 18446744073709551615
        = Returns (OK, b', pk') \<and> pos pk' = 18446744073709551615)"
proof -
  have 1: "ps_packet_seek example_open example_packet 48
      = Returns (OK,
          example_open\<lparr>state := (state example_open)\<lparr>free_bytes := 0\<rparr>,
                        buffer := set_header_size (buffer example_open) 0 48\<rparr>,
          example_packet\<lparr>reserved := 48, pos := 48\<rparr>)"
    by (simp add: ps_packet_seek_def seek_reserve_def seek_move_def ps_packet_reserve_def
          reserve_loop_enough hdr_size_def)
  have 2: "ps_packet_close
        (example_open\<lparr>state := (state example_open)\<lparr>free_bytes := 0\<rparr>,
                      buffer := set_header_size (buffer example_open) 0 48\<rparr>)
        (example_packet\<lparr>reserved := 48, pos := 48\<rparr>)
      = Returns (ENOBUFS,
          example_open\<lparr>state := (state example_open)\<lparr>free_bytes := 0\<rparr>,
                        buffer := set_header_size (buffer example_open) 0 48\<rparr>,
          example_packet\<lparr>reserved := 48, pos := 48\<rparr>)"
    by (simp add: ps_packet_close_def ps_packet_closewrite_def closewrite_prepare_def
          ps_packet_setsize_def ps_packet_check_def ps_buffer_check_def hdr_size_def
          example_open_def example_packet_def zero_state_def)
  have 3: "ps_packet_write example_open example_packet (replicate 43 0) 43
     = Returns (ENOBUFS, example_open, example_packet)"
    by (simp add: ps_packet_write_def write_bounds_def hdr_size_def)
  have 4: "ps_packet_setsize example_open example_packet 48
     = Returns (ENOBUFS, example_open, example_packet)"
    by (simp add: ps_packet_setsize_def hdr_size_def)
  have 5: "ps_packet_seek example_open example_packet 49
     = Returns (EINVAL, example_open, example_packet)"
    by (simp add: ps_packet_seek_def seek_reserve_def hdr_size_def)
  have 6: "\<exists>b' pk'. ps_packet_seek example_open example_packet 18446744073709551615
        = Returns (OK, b', pk') \<and> pos pk' = 18446744073709551615"
    by (simp add: ps_packet_seek_def seek_reserve_def seek_move_def ps_packet_reserve_def
          reserve_loop_enough hdr_size_def)
  from 1 2 3 4 5 6 show ?thesis by simp
qed

theorem seek_guard_diverges_witness:
  "\<exists>b1 pk1 b2 pk2. ps_packet_seek example_open example_packet 48 = Returns (OK, b1, pk1) \<and>
      ps_packet_close b1 pk1 = Returns (ENOBUFS, b2, pk2)"
  using seek_guard_diverges by blast

text \<open>C2. The claim fails where a position reaches \<open>2 ^ 31\<close>: \<^verbatim>\<open>move_pos\<close> returns an
  \<^verbatim>\<open>int\<close>, so from position \<open>2 ^ 31\<close> in an arena of \<open>2 ^ 32\<close> bytes, over an empty
  packet, its callers get \<open>2 ^ 64 - 2 ^ 31 + 16\<close>, while the index computations
  written out in \<^verbatim>\<open>ps_packet_reserve\<close> and \<^verbatim>\<open>ps_packet_setsize\<close> give \<open>2 ^ 31 + 16\<close>.\<close>

theorem move_pos_int_truncation:
  "int_to_size_t (move_pos (read_first (state example_big)) (s_size (state example_big))
      (header_size (buffer example_big) (read_first (state example_big)))) = 18446744071562067984 \<and>
   read_first (state (reclaim_read_first example_big)) = 2147483664 \<and>
   fst (next_header_slot (read_first (state example_big))
      (header_size (buffer example_big) (read_first (state example_big)))
      (s_size (state example_big))) = 2147483664"
  by (simp add: move_pos_def int_to_size_t_def reclaim_read_first_def next_header_slot_def
        hdr_size_def Let_def example_big_def zero_state_def)

text \<open>C5. For a handle with \<^verbatim>\<open>PS_PACKET_TRY\<close> and a length above what is reserved,
  \<^verbatim>\<open>ps_packet_reserve\<close> returns \<^verbatim>\<open>EBUSY\<close> exactly when the deduction makes \<^verbatim>\<open>free_bytes\<close>
  negative and \<^verbatim>\<open>sem_trywait\<close> on \<^verbatim>\<open>read_packets\<close> fails: at once (no token; the buffer
  is returned as it was, so the deduction has been added back), or after the released
  packets have been reclaimed and \<^verbatim>\<open>free_bytes\<close> is still too small. Then the buffer
  returned is the one the reclaiming loop makes of the buffer before the call: the
  reclaimed bytes are credited, \<^verbatim>\<open>read_first\<close> is past them, and nothing of the deduction
  is left. The handle, with its \<^verbatim>\<open>reserved\<close>, is returned as it was.\<close>

theorem reserve_try_busy:
  "PS_PACKET_TRY \<in> p_flags pk \<Longrightarrow> reserved pk < len \<Longrightarrow>
   (ps_packet_reserve b pk len = Returns (EBUSY, b', pk') \<longleftrightarrow>
      pk' = pk \<and> sint (free_bytes (state b) - (len - reserved pk)) < 0 \<and>
      (if read_packets (state b) = 0 then b' = b
       else reserve_reclaim
              (b\<lparr>state := (state b)\<lparr>read_packets := read_packets (state b) - 1\<rparr>\<rparr>) = (OK, b') \<and>
            sint (free_bytes (state b') - (len - reserved pk)) < 0))"
proof -
  assume nb: "PS_PACKET_TRY \<in> p_flags pk" and grow: "reserved pk < len"
  define d where "d = len - reserved pk"
  define b0 where "b0 = add_free (- d) b"
  have nle: "\<not> len \<le> reserved pk" using grow by simp
  have "b\<lparr>state := (state b)\<lparr>free_bytes := free_bytes (state b) - d\<rparr>\<rparr> = b0"
    by (simp add: b0_def add_free_def)
  then have start: "ps_packet_reserve b pk len = reserve_loop b0 pk len"
    using nle by (simp add: ps_packet_reserve_def d_def)
  have fb0: "free_bytes (state b0) = free_bytes (state b) - d" by (simp add: b0_def)
  have rp0: "read_packets (state b0) = read_packets (state b)" by (simp add: b0_def)
  show ?thesis
  proof (cases "sint (free_bytes (state b) - d) < 0")
    case False
    then have "reserve_loop b0 pk len = Returns (OK, b0, pk\<lparr>reserved := len\<rparr>)"
      by (simp add: reserve_loop_enough fb0)
    with False start show ?thesis by (simp add: d_def)
  next
    case neg: True
    show ?thesis
    proof (cases "read_packets (state b) = 0")
      case True
      with neg have "reserve_loop b0 pk len = Returns (EBUSY, add_free d b0, pk)"
        by (simp add: reserve_loop_try[OF nb] fb0 rp0 d_def)
      moreover have "add_free d b0 = b" by (simp add: b0_def)
      ultimately show ?thesis using start neg True by (auto simp: d_def)
    next
      case tokens: False
      define b1 where "b1 = b\<lparr>state := (state b)\<lparr>read_packets := read_packets (state b) - 1\<rparr>\<rparr>"
      obtain e2 b2 where r: "reserve_reclaim b1 = (e2, b2)" by (cases "reserve_reclaim b1")
      have b01: "b0\<lparr>state := (state b0)\<lparr>read_packets := read_packets (state b) - Suc 0\<rparr>\<rparr>
                  = add_free (- d) b1"
        by (simp add: b0_def b1_def add_free_def)
      from reserve_reclaim_add_free[OF r, of "- d"]
      have r0: "reserve_reclaim (add_free (- d) b1) = (e2, add_free (- d) b2)" by simp
      have step: "reserve_loop b0 pk len =
          (case (e2, add_free (- d) b2) of (OK, b2) \<Rightarrow> reserve_loop b2 pk len
           | (e2, b2) \<Rightarrow> Returns (e2, b2, pk))"
        using neg tokens by (simp add: reserve_loop_try[OF nb, of b0] fb0 rp0 b01 r0)
      from reserve_reclaim_frame[OF r] have e2: "e2 = OK \<or> e2 = EINTR" by auto
      show ?thesis
      proof (cases "e2 = OK")
        case False
        with e2 have "e2 = EINTR" by simp
        with step start r tokens show ?thesis by (simp add: b1_def)
      next
        case True
        from reserve_reclaim_drains[OF r] True have rp2: "read_packets (state b2) = 0" by simp
        have again: "reserve_loop b0 pk len = reserve_loop (add_free (- d) b2) pk len"
          using step True by simp
        show ?thesis
        proof (cases "sint (free_bytes (state b2) - d) < 0")
          case False
          then have "reserve_loop (add_free (- d) b2) pk len
              = Returns (OK, add_free (- d) b2, pk\<lparr>reserved := len\<rparr>)"
            by (simp add: reserve_loop_enough)
          with again start False r True tokens show ?thesis by (auto simp: d_def b1_def)
        next
          case neg2: True
          have alg: "\<And>a. a + (reserved pk - len) = a - (len - reserved pk)" by simp
          from neg2 have "reserve_loop (add_free (- d) b2) pk len
              = Returns (EBUSY, add_free d (add_free (- d) b2), pk)"
            by (simp add: reserve_loop_try[OF nb] rp2 d_def alg)
          then have "reserve_loop b0 pk len = Returns (EBUSY, b2, pk)"
            using again by simp
          with start neg neg2 r True tokens show ?thesis by (auto simp: d_def b1_def)
        qed
      qed
    qed
  qed
qed



theorem reserve_try_busy_witness:
  "PS_PACKET_TRY \<in> p_flags example_try_packet \<and> reserved example_try_packet < 60 \<and>
   ps_packet_reserve example_released example_try_packet 60
     = Returns (EBUSY,
         example_released\<lparr>state := (state example_released)
            \<lparr>free_bytes := 48, read_first := 32, read_packets := 0\<rparr>\<rparr>,
         example_try_packet)"
proof -
  have f: "PS_PACKET_TRY \<in> p_flags example_try_packet" "reserved example_try_packet < 60"
    by (simp_all add: example_try_packet_def)
  have r: "reserve_reclaim (example_released\<lparr>state := (state example_released)
              \<lparr>read_packets := read_packets (state example_released) - 1\<rparr>\<rparr>)
       = (OK, example_released\<lparr>state := (state example_released)
            \<lparr>free_bytes := 48, read_first := 32, read_packets := 0\<rparr>\<rparr>)"
    by (subst reserve_reclaim.simps)
       (simp add: example_released_def zero_state_def reclaim_read_first_def Let_def
          sem_trywait_def hdr_size_def)
  have "ps_packet_reserve example_released example_try_packet 60
     = Returns (EBUSY,
         example_released\<lparr>state := (state example_released)
            \<lparr>free_bytes := 48, read_first := 32, read_packets := 0\<rparr>\<rparr>,
         example_try_packet)"
    unfolding reserve_try_busy[OF f] using r
    by (simp add: example_released_def example_try_packet_def zero_state_def)
  with f show ?thesis by simp
qed

text \<open>C3. Round trip. Let the header of the packet lie inside the arena, the arena be
  smaller than \<open>2 ^ 63\<close> bytes, and the span of \<open>|B|\<close> bytes at cursor \<open>pos\<close> fit in the arena
  less two headers (the bound \<^verbatim>\<open>ps_packet_write\<close> and \<^verbatim>\<open>ps_packet_setsize\<close> enforce on
  every payload). Then whenever \<^verbatim>\<open>ps_packet_write\<close> of \<open>B\<close> at \<open>pos\<close> returns 0,
  \<^verbatim>\<open>ps_packet_read\<close> of \<open>|B|\<close> bytes through the same handle with the cursor back at \<open>pos\<close>
  returns 0 and yields exactly \<open>B\<close>, and leaves the cursor where the write left it; this
  includes the spans that pass the end of the arena, which both functions copy in two
  parts. The write does return 0 on a live buffer when the size is frozen and the span
  lies within it, and when the size is not frozen and the bytes are already reserved
  or \<^verbatim>\<open>free_bytes\<close> covers them.\<close>

theorem write_read_round_trip:
  "length B = unat n \<Longrightarrow>
   header pk = Some (buffer_pos pk) \<Longrightarrow>
   unat (buffer_pos pk) + unat hdr_size \<le> unat (s_size (state b)) \<Longrightarrow>
   unat (pos pk) + unat n + 2 * unat hdr_size \<le> unat (s_size (state b)) \<Longrightarrow>
   unat (s_size (state b)) < 2 ^ 63 \<Longrightarrow>
   (\<forall>b' pk'. ps_packet_write b pk B n = Returns (OK, b', pk') \<longrightarrow>
      ps_packet_read b' (pk'\<lparr>pos := pos pk\<rparr>) n = (OK, pk', B)) \<and>
   (ps_packet_check b pk = OK \<and>
    (if PS_PACKET_SIZE_SET \<in> p_flags pk
     then pos pk + n \<le> header_size (buffer b) (buffer_pos pk)
     else pos pk + n \<le> reserved pk \<or>
          \<not> sint (free_bytes (state b) - (pos pk + n - reserved pk)) < 0) \<longrightarrow>
      (\<exists>b' pk'. ps_packet_write b pk B n = Returns (OK, b', pk')))"
proof (intro conjI allI impI)
  assume len: "length B = unat n"
    and hdr: "header pk = Some (buffer_pos pk)"
    and bp0: "unat (buffer_pos pk) + unat hdr_size \<le> unat (s_size (state b))"
    and fit0: "unat (pos pk) + unat n + 2 * unat hdr_size \<le> unat (s_size (state b))"
    and s: "unat (s_size (state b)) < 2 ^ 63"
  have h: "unat (hdr_size :: size_t) = 16" by (simp add: hdr_size_def)
  from bp0 h have bp: "unat (buffer_pos pk) + 16 \<le> unat (s_size (state b))" by simp
  from fit0 h have fit: "unat (pos pk) + unat n + 32 \<le> unat (s_size (state b))" by simp
  {
    fix b' pk'
    assume w: "ps_packet_write b pk B n = Returns (OK, b', pk')"
    have ok: "ps_packet_check b pk = OK"
    proof (rule ccontr)
      assume "ps_packet_check b pk \<noteq> OK"
      with w show False by (simp add: ps_packet_write_def)
    qed
    with w obtain e1 b1 pk1 where wb: "write_bounds b pk n = Returns (e1, b1, pk1)"
      and k: "(if e1 \<noteq> OK then Returns (e1, b1, pk1)
               else Returns (OK, write_copy (the (header pk)) b1 pk1 B n))
                = Returns (OK, b', pk')"
      by (auto simp: ps_packet_write_def bind_outcome_Returns)
    from k have e1: "e1 = OK" by (cases "e1 = OK") simp_all
    with k hdr have wc0: "write_copy (buffer_pos pk) b1 pk1 B n = (b', pk')" by simp
    from write_bounds_frames[OF wb]
    have f: "s_size (state b1) = s_size (state b)" "s_flags (state b1) = s_flags (state b)"
      "buffer_pos pk1 = buffer_pos pk" "header pk1 = header pk" "pos pk1 = pos pk"
      "p_flags pk1 = p_flags pk"
      by (simp_all add: write_frame_def handle_frame_def)
    from wc0 f have wc: "write_copy (buffer_pos pk1) b1 pk1 B n = (b', pk')" by simp
    from bp f have bp1: "unat (buffer_pos pk1) + 16 \<le> unat (s_size (state b1))" by simp
    from fit f have fit1: "unat (pos pk1) + unat n + 32 \<le> unat (s_size (state b1))" by simp
    from s f have s1: "unat (s_size (state b1)) < 2 ^ 63" by simp
    note rb = write_copy_read_back[OF len bp1 fit1 s1 wc]
    from f rb(3,4) have "ps_packet_check b' (pk'\<lparr>pos := pos pk\<rparr>) = ps_packet_check b pk"
      by (simp add: ps_packet_check_def ps_buffer_check_def)
    with ok have ok': "ps_packet_check b' (pk'\<lparr>pos := pos pk\<rparr>) = OK" by simp
    from rb(2) f have bound: "\<not> pos pk + n > header_size (buffer b') (buffer_pos pk)" by simp
    from rb(3) f hdr have hd': "header pk' = Some (buffer_pos pk)" "buffer_pos pk' = buffer_pos pk"
      by simp_all
    from rb(1) f have data: "read_split (buffer b') (s_size (state b'))
           ((buffer_pos pk + hdr_size + pos pk) mod s_size (state b')) n = B" by simp
    from rb(3) f have idem: "pk'\<lparr>pos := pos pk + n\<rparr> = pk'" by simp
    from ok' bound hd' data idem
    show "ps_packet_read b' (pk'\<lparr>pos := pos pk\<rparr>) n = (OK, pk', B)"
      by (simp add: ps_packet_read_def Let_def)
  }
  {
    assume a: "ps_packet_check b pk = OK \<and>
      (if PS_PACKET_SIZE_SET \<in> p_flags pk
       then pos pk + n \<le> header_size (buffer b) (buffer_pos pk)
       else pos pk + n \<le> reserved pk \<or>
            \<not> sint (free_bytes (state b) - (pos pk + n - reserved pk)) < 0)"
    have "unat (pos pk) + unat n < 2 ^ LENGTH(64)" using fit s by simp
    then have pn: "unat (pos pk + n) = unat (pos pk) + unat n"
      using unat_add_lem[of "pos pk" n] by simp
    have "unat (hdr_size * 2 :: size_t) = 32" by (simp add: hdr_size_def)
    moreover have "unat (pos pk + n) + unat (hdr_size * 2 :: size_t) < 2 ^ LENGTH(64)"
      using fit s pn calculation by simp
    ultimately have "unat (pos pk + n + hdr_size * 2) = unat (pos pk) + unat n + 32"
      using unat_add_lem[of "pos pk + n" "hdr_size * 2"] pn by simp
    with fit have cap: "\<not> pos pk + n + hdr_size * 2 > s_size (state b)"
      by (simp add: word_less_nat_alt)
    show "\<exists>b' pk'. ps_packet_write b pk B n = Returns (OK, b', pk')"
    proof (cases "PS_PACKET_SIZE_SET \<in> p_flags pk")
      case True
      with a hdr show ?thesis
        by (simp add: ps_packet_write_def write_bounds_def write_copy_def Let_def not_less)
    next
      case False
      show ?thesis
      proof (cases "pos pk + n \<le> reserved pk")
        case True
        with False a cap show ?thesis
          by (simp add: ps_packet_write_def write_bounds_def ps_packet_reserve_def
                write_copy_def Let_def)
      next
        case nr: False
        with False a have "\<not> sint (free_bytes (state b) - (pos pk + n - reserved pk)) < 0"
          by simp
        then have "reserve_loop
             (b\<lparr>state := (state b)\<lparr>free_bytes :=
                  free_bytes (state b) - (pos pk + n - reserved pk)\<rparr>\<rparr>) pk (pos pk + n)
           = Returns (OK, b\<lparr>state := (state b)\<lparr>free_bytes :=
                  free_bytes (state b) - (pos pk + n - reserved pk)\<rparr>\<rparr>,
                  pk\<lparr>reserved := pos pk + n\<rparr>)"
          by (intro reserve_loop_enough) simp
        with False nr a cap show ?thesis
          by (simp add: ps_packet_write_def write_bounds_def ps_packet_reserve_def
                write_copy_def Let_def)
      qed
    qed
  }
qed

theorem write_read_round_trip_witness:
  "s_size (state example_wrap) < (buffer_pos example_wrap_packet + hdr_size
       + pos example_wrap_packet) mod s_size (state example_wrap) + 12 \<and>
   (\<exists>b' pk'. ps_packet_write example_wrap example_wrap_packet
                 [1, 2, 3, 4, 5, 6, 7, 8, 9, 10, 11, 12] 12 = Returns (OK, b', pk') \<and>
      ps_packet_read b' (pk'\<lparr>pos := 10\<rparr>) 12
        = (OK, pk', [1, 2, 3, 4, 5, 6, 7, 8, 9, 10, 11, 12]))"
proof -
  have f: "s_size (state example_wrap) = 64" "buffer_pos example_wrap_packet = 32"
    "pos example_wrap_packet = 10" "header example_wrap_packet = Some 32"
    "reserved example_wrap_packet = 10" "free_bytes (state example_wrap) = 38"
    "PS_PACKET_SIZE_SET \<notin> p_flags example_wrap_packet"
    "ps_packet_check example_wrap example_wrap_packet = OK"
    by (simp_all add: example_wrap_def example_wrap_packet_def zero_state_def
          ps_packet_check_def ps_buffer_check_def)
  have len: "length [1, 2, 3, 4, 5, 6, 7, 8, 9, 10, 11, 12 :: byte] = unat (12 :: size_t)"
    by simp
  have hdr: "header example_wrap_packet = Some (buffer_pos example_wrap_packet)"
    by (simp add: f)
  have bp: "unat (buffer_pos example_wrap_packet) + unat (hdr_size :: size_t)
      \<le> unat (s_size (state example_wrap))"
    by (simp add: f hdr_size_def)
  have fit: "unat (pos example_wrap_packet) + unat (12 :: size_t) + 2 * unat (hdr_size :: size_t)
      \<le> unat (s_size (state example_wrap))"
    by (simp add: f hdr_size_def)
  have s: "unat (s_size (state example_wrap)) < 2 ^ 63" by (simp add: f)
  note t = write_read_round_trip[OF len hdr bp fit s]
  have room: "\<not> sint (free_bytes (state example_wrap)
      - (pos example_wrap_packet + 12 - reserved example_wrap_packet)) < 0"
    by (simp add: f)
  from t[THEN conjunct2] f(7,8) room
  obtain b' pk' where w: "ps_packet_write example_wrap example_wrap_packet
      [1, 2, 3, 4, 5, 6, 7, 8, 9, 10, 11, 12] 12 = Returns (OK, b', pk')"
    by auto
  from t[THEN conjunct1, rule_format, OF w]
  have r: "ps_packet_read b' (pk'\<lparr>pos := 10\<rparr>) 12
      = (OK, pk', [1, 2, 3, 4, 5, 6, 7, 8, 9, 10, 11, 12])"
    by (simp add: f)
  have wrap: "s_size (state example_wrap) < (buffer_pos example_wrap_packet + hdr_size
       + pos example_wrap_packet) mod s_size (state example_wrap) + 12"
    by (simp add: f hdr_size_def)
  from wrap w r show ?thesis by blast
qed





end
